theory Spec2Isabelle
  imports Main
begin

text \<open>
  A model of \<open>vector.h\<close>: the class \<open>RawMemory\<close>, which owns a block of
  uninitialised storage, and the class \<open>Vector\<close> built on it. Memory is explicit:
  blocks of slots, each raw or holding a live object, so that construction,
  destruction, leaks and reads of raw storage are visible. Every function of the source
  is a function on this memory and on the fields of the objects; exceptions and
  undefined behaviour are results.
\<close>

section \<open>Raw memory, objects and failures\<close>

text \<open>
  The allocator hands out blocks of element-sized slots. A slot is either raw
  (\<open>None\<close>) or holds a live object (\<open>Some x\<close>). The address of a block is
  its index in \<open>blocks\<close>; a released block stays in the list as \<open>None\<close>, so
  an address is never handed out twice and a second release is visible.
  \<open>avail\<close> is the number of slots the system allocator can still supply.
  \<open>size_t\<close> is modelled by \<open>nat\<close>. The model covers the requests whose byte
  count \<open>n * sizeof(T)\<close> fits \<open>size_t\<close>, which are all the requests a vector
  makes for the elements it holds (\<open>size_ * 2\<close>, \<open>rhs.size_\<close>). For a larger
  \<open>n\<close> chosen by the caller the source passes the wrapped byte count to
  \<open>operator new\<close> and records the capacity \<open>n\<close> on a smaller block; here such a
  request is refused like any request above \<open>avail\<close>.
\<close>

type_synonym 'a block = "'a option list"

record 'a memory =
  blocks :: "'a block option list"
  avail :: nat

text \<open>A \<open>T*\<close>: the null pointer, or slot \<open>i\<close> of the block at address \<open>a\<close>.\<close>

datatype ptr = nullptr | Addr nat nat

datatype failure = bad_alloc | element_failure

text \<open>
  What a call does: it returns (\<open>Done\<close>), it leaves by an exception with the
  state at that moment (\<open>Throw\<close>), or its behaviour is undefined (\<open>UB\<close>: a
  violated precondition, an access outside a block or to a slot with no live object).
\<close>

datatype ('r, 's) outcome = Done 'r | Throw failure 's | UB

text \<open>
  The element type \<open>T\<close>: its value-initialised object (\<open>None\<close> when \<open>T()\<close>
  throws), the values whose copy or move throws, the state a moved-from object is
  left in, and the two type traits the relocation policy asks for.
\<close>

record 'a elem_type =
  value_init :: "'a option"
  copy_throws :: "'a \<Rightarrow> bool"
  move_throws :: "'a \<Rightarrow> bool"
  moved_from :: "'a \<Rightarrow> 'a"
  is_nothrow_move_constructible :: bool
  is_copy_constructible :: bool

definition move_fails :: "'a elem_type \<Rightarrow> 'a \<Rightarrow> bool" where
  "move_fails T x = (\<not> is_nothrow_move_constructible T \<and> move_throws T x)"

subsection \<open>Pointers\<close>

fun ptr_add :: "ptr \<Rightarrow> nat \<Rightarrow> ptr" where
  "ptr_add nullptr k = nullptr"
| "ptr_add (Addr a i) k = Addr a (i + k)"

text \<open>\<open>p - k\<close>; stepping before the start of a block is undefined.\<close>

fun ptr_sub :: "ptr \<Rightarrow> nat \<Rightarrow> ptr option" where
  "ptr_sub nullptr k = (if k = 0 then Some nullptr else None)"
| "ptr_sub (Addr a i) k = (if k \<le> i then Some (Addr a (i - k)) else None)"

text \<open>\<open>std::distance(first, last)\<close> for a range \<open>[first, last)\<close> of one block.\<close>

fun distance :: "ptr \<Rightarrow> ptr \<Rightarrow> nat option" where
  "distance nullptr nullptr = Some 0"
| "distance (Addr a i) (Addr b j) = (if a = b \<and> i \<le> j then Some (j - i) else None)"
| "distance _ _ = None"

subsection \<open>Slots\<close>

definition block_at :: "'a memory \<Rightarrow> nat \<Rightarrow> 'a block option" where
  "block_at h a = (if a < length (blocks h) then blocks h ! a else None)"

text \<open>The value of the live object at \<open>p\<close>; \<open>None\<close> when there is none.\<close>

definition load :: "'a memory \<Rightarrow> ptr \<Rightarrow> 'a option" where
  "load h p =
     (case p of nullptr \<Rightarrow> None
      | Addr a i \<Rightarrow>
          (case block_at h a of None \<Rightarrow> None
           | Some b \<Rightarrow> if i < length b then b ! i else None))"

text \<open>Overwrite the slot at \<open>p\<close>; \<open>None\<close> when \<open>p\<close> is not a slot of a block.\<close>

definition store :: "ptr \<Rightarrow> 'a option \<Rightarrow> 'a memory \<Rightarrow> 'a memory option" where
  "store p s h =
     (case p of nullptr \<Rightarrow> None
      | Addr a i \<Rightarrow>
          (case block_at h a of None \<Rightarrow> None
           | Some b \<Rightarrow>
               if i < length b
               then Some (h\<lparr>blocks := (blocks h)[a := Some (b[i := s])]\<rparr>)
               else None))"

text \<open>Placement \<open>new (p) T(x)\<close> once the value \<open>x\<close> is known.\<close>

definition construct_at :: "ptr \<Rightarrow> 'a \<Rightarrow> 'a memory \<Rightarrow> 'a memory option" where
  "construct_at p x h = store p (Some x) h"

text \<open>The destructor call on the object at \<open>p\<close>.\<close>

definition destroy_at :: "ptr \<Rightarrow> 'a memory \<Rightarrow> 'a memory option" where
  "destroy_at p h = (case load h p of None \<Rightarrow> None | Some x \<Rightarrow> store p None h)"

text \<open>Assignment to the live object at \<open>p\<close>.\<close>

definition assign_at :: "ptr \<Rightarrow> 'a \<Rightarrow> 'a memory \<Rightarrow> 'a memory option" where
  "assign_at p x h = (case load h p of None \<Rightarrow> None | Some y \<Rightarrow> store p (Some x) h)"

subsection \<open>The library algorithms on ranges\<close>

primrec destroy_n :: "ptr \<Rightarrow> nat \<Rightarrow> 'a memory \<Rightarrow> 'a memory option" where
  "destroy_n p 0 h = Some h"
| "destroy_n p (Suc n) h =
     (case destroy_at p h of None \<Rightarrow> None
      | Some h' \<Rightarrow> destroy_n (ptr_add p 1) n h')"

text \<open>
  The \<open>uninitialized_*\<close> algorithms construct into raw slots one by one; when a
  constructor throws they destroy what they have constructed and rethrow.
  \<open>i\<close> counts the objects constructed so far.
\<close>

definition rollback :: "ptr \<Rightarrow> nat \<Rightarrow> 'a memory \<Rightarrow> ('a memory, 'a memory) outcome" where
  "rollback d_first i h =
     (case destroy_n d_first i h of None \<Rightarrow> UB | Some h' \<Rightarrow> Throw element_failure h')"

primrec value_construct_loop ::
  "'a elem_type \<Rightarrow> ptr \<Rightarrow> nat \<Rightarrow> nat \<Rightarrow> 'a memory \<Rightarrow> ('a memory, 'a memory) outcome" where
  "value_construct_loop T first i 0 h = Done h"
| "value_construct_loop T first i (Suc n) h =
     (case value_init T of None \<Rightarrow> rollback first i h
      | Some x \<Rightarrow>
          (case construct_at (ptr_add first i) x h of None \<Rightarrow> UB
           | Some h' \<Rightarrow> value_construct_loop T first (Suc i) n h'))"

definition uninitialized_value_construct_n ::
  "'a elem_type \<Rightarrow> ptr \<Rightarrow> nat \<Rightarrow> 'a memory \<Rightarrow> ('a memory, 'a memory) outcome" where
  "uninitialized_value_construct_n T first n h = value_construct_loop T first 0 n h"

primrec uninit_copy_loop ::
  "'a elem_type \<Rightarrow> ptr \<Rightarrow> ptr \<Rightarrow> nat \<Rightarrow> nat \<Rightarrow> 'a memory \<Rightarrow> ('a memory, 'a memory) outcome" where
  "uninit_copy_loop T first d_first i 0 h = Done h"
| "uninit_copy_loop T first d_first i (Suc n) h =
     (case load h (ptr_add first i) of None \<Rightarrow> UB
      | Some x \<Rightarrow>
          if copy_throws T x then rollback d_first i h
          else (case construct_at (ptr_add d_first i) x h of None \<Rightarrow> UB
                | Some h' \<Rightarrow> uninit_copy_loop T first d_first (Suc i) n h'))"

definition uninitialized_copy_n ::
  "'a elem_type \<Rightarrow> ptr \<Rightarrow> nat \<Rightarrow> ptr \<Rightarrow> 'a memory \<Rightarrow> ('a memory, 'a memory) outcome" where
  "uninitialized_copy_n T first n d_first h = uninit_copy_loop T first d_first 0 n h"

text \<open>
  \<open>new (d) T(std::move(*s))\<close>: move construction leaves the source alive in its
  moved-from state.
\<close>

definition move_construct ::
  "'a elem_type \<Rightarrow> ptr \<Rightarrow> ptr \<Rightarrow> 'a memory \<Rightarrow> ('a memory, 'a memory) outcome" where
  "move_construct T s d h =
     (case load h s of None \<Rightarrow> UB
      | Some x \<Rightarrow>
          if move_fails T x then Throw element_failure h
          else (case store s (Some (moved_from T x)) h of None \<Rightarrow> UB
                | Some h1 \<Rightarrow>
                    (case construct_at d x h1 of None \<Rightarrow> UB | Some h' \<Rightarrow> Done h')))"

primrec uninit_move_loop ::
  "'a elem_type \<Rightarrow> ptr \<Rightarrow> ptr \<Rightarrow> nat \<Rightarrow> nat \<Rightarrow> 'a memory \<Rightarrow> ('a memory, 'a memory) outcome" where
  "uninit_move_loop T first d_first i 0 h = Done h"
| "uninit_move_loop T first d_first i (Suc n) h =
     (case move_construct T (ptr_add first i) (ptr_add d_first i) h of
        UB \<Rightarrow> UB
      | Throw e h' \<Rightarrow> rollback d_first i h'
      | Done h' \<Rightarrow> uninit_move_loop T first d_first (Suc i) n h')"

definition uninitialized_move_n ::
  "'a elem_type \<Rightarrow> ptr \<Rightarrow> nat \<Rightarrow> ptr \<Rightarrow> 'a memory \<Rightarrow> ('a memory, 'a memory) outcome" where
  "uninitialized_move_n T first n d_first h = uninit_move_loop T first d_first 0 n h"

text \<open>
  \<open>std::copy\<close>, \<open>std::move\<close> and \<open>std::move_backward\<close> assign to live
  objects; an exception leaves the elements assigned so far as they are.
\<close>

primrec copy_loop ::
  "'a elem_type \<Rightarrow> ptr \<Rightarrow> ptr \<Rightarrow> nat \<Rightarrow> 'a memory \<Rightarrow> ('a memory, 'a memory) outcome" where
  "copy_loop T first d_first 0 h = Done h"
| "copy_loop T first d_first (Suc n) h =
     (case load h first of None \<Rightarrow> UB
      | Some x \<Rightarrow>
          if copy_throws T x then Throw element_failure h
          else (case assign_at d_first x h of None \<Rightarrow> UB
                | Some h' \<Rightarrow> copy_loop T (ptr_add first 1) (ptr_add d_first 1) n h'))"

definition copy_range ::
  "'a elem_type \<Rightarrow> ptr \<Rightarrow> ptr \<Rightarrow> ptr \<Rightarrow> 'a memory \<Rightarrow> ('a memory, 'a memory) outcome" where
  "copy_range T first lastp d_first h =
     (case distance first lastp of None \<Rightarrow> UB
      | Some n \<Rightarrow> copy_loop T first d_first n h)"

text \<open>One move assignment \<open>*d = std::move(*s)\<close>.\<close>

definition move_assign_at ::
  "'a elem_type \<Rightarrow> ptr \<Rightarrow> ptr \<Rightarrow> 'a memory \<Rightarrow> ('a memory, 'a memory) outcome" where
  "move_assign_at T s d h =
     (case load h s of None \<Rightarrow> UB
      | Some x \<Rightarrow>
          if move_throws T x then Throw element_failure h
          else (case store s (Some (moved_from T x)) h of None \<Rightarrow> UB
                | Some h1 \<Rightarrow>
                    (case assign_at d x h1 of None \<Rightarrow> UB | Some h' \<Rightarrow> Done h')))"



text \<open>\<open>move_backward\<close> walks from \<open>last\<close> and \<open>d_last\<close> down.\<close>

primrec move_backward_loop ::
  "'a elem_type \<Rightarrow> ptr \<Rightarrow> ptr \<Rightarrow> nat \<Rightarrow> 'a memory \<Rightarrow> ('a memory, 'a memory) outcome" where
  "move_backward_loop T lastp d_last 0 h = Done h"
| "move_backward_loop T lastp d_last (Suc n) h =
     (case (ptr_sub lastp 1, ptr_sub d_last 1) of
        (Some s, Some d) \<Rightarrow>
          (case move_assign_at T s d h of
             Done h' \<Rightarrow> move_backward_loop T s d n h'
           | Throw e h' \<Rightarrow> Throw e h'
           | UB \<Rightarrow> UB)
      | _ \<Rightarrow> UB)"

definition move_backward ::
  "'a elem_type \<Rightarrow> ptr \<Rightarrow> ptr \<Rightarrow> ptr \<Rightarrow> 'a memory \<Rightarrow> ('a memory, 'a memory) outcome" where
  "move_backward T first lastp d_last h =
     (case distance first lastp of None \<Rightarrow> UB
      | Some n \<Rightarrow> move_backward_loop T lastp d_last n h)"


section \<open>RawMemory\<close>

text \<open>
  The members \<open>buffer_\<close>, \<open>capacity_\<close>, \<open>data_\<close> and \<open>size_\<close> are
  written \<open>buffer_m\<close>, \<open>capacity_m\<close>, \<open>data_m\<close> and \<open>size_m\<close>: a name
  cannot end in an underscore here.
\<close>

record RawMemory =
  buffer_m :: ptr
  capacity_m :: nat

text \<open>
  \<open>operator new(n * sizeof(T))\<close> for \<open>n \<noteq> 0\<close>, else the null pointer. The
  request is counted in slots; a product \<open>n * sizeof(T)\<close> beyond \<open>size_t\<close> is
  not modelled (see above).
\<close>

definition Allocate :: "nat \<Rightarrow> 'a memory \<Rightarrow> (ptr \<times> 'a memory, 'a memory) outcome" where
  "Allocate n h =
     (if n \<noteq> 0
      then (if n \<le> avail h
            then Done (Addr (length (blocks h)) 0,
                       h\<lparr>blocks := blocks h @ [Some (replicate n None)], avail := avail h - n\<rparr>)
            else Throw bad_alloc h)
      else Done (nullptr, h))"

text \<open>
  \<open>operator delete(buf)\<close>: nothing for the null pointer; the block goes back to the
  allocator whatever its slots hold; anything that is not the start of a block still
  allocated is undefined.
\<close>

definition Deallocate :: "ptr \<Rightarrow> 'a memory \<Rightarrow> 'a memory option" where
  "Deallocate buf h =
     (case buf of nullptr \<Rightarrow> Some h
      | Addr a i \<Rightarrow>
          (case block_at h a of None \<Rightarrow> None
           | Some b \<Rightarrow>
               if i = 0
               then Some (h\<lparr>blocks := (blocks h)[a := None], avail := avail h + length b\<rparr>)
               else None))"

definition RawMemory_default :: RawMemory where
  "RawMemory_default = \<lparr>buffer_m = nullptr, capacity_m = 0\<rparr>"

definition RawMemory_new :: "nat \<Rightarrow> 'a memory \<Rightarrow> (RawMemory \<times> 'a memory, 'a memory) outcome" where
  "RawMemory_new capacity h =
     (case Allocate capacity h of
        Done (p, h') \<Rightarrow> Done (\<lparr>buffer_m = p, capacity_m = capacity\<rparr>, h')
      | Throw e h' \<Rightarrow> Throw e h'
      | UB \<Rightarrow> UB)"

text \<open>The move constructor: the new object and what is left of \<open>other\<close>.\<close>

definition RawMemory_move :: "RawMemory \<Rightarrow> RawMemory \<times> RawMemory" where
  "RawMemory_move other =
     (\<lparr>buffer_m = buffer_m other, capacity_m = capacity_m other\<rparr>,
      other\<lparr>buffer_m := nullptr, capacity_m := 0\<rparr>)"

text \<open>
  Move assignment between two distinct objects (the branch \<open>this != &other\<close>):
  the fields of \<open>this\<close> are overwritten; the block \<open>this\<close> held is not released.
\<close>

definition RawMemory_move_assign :: "RawMemory \<Rightarrow> RawMemory \<Rightarrow> RawMemory \<times> RawMemory" where
  "RawMemory_move_assign this other =
     (this\<lparr>buffer_m := buffer_m other, capacity_m := capacity_m other\<rparr>,
      other\<lparr>buffer_m := nullptr, capacity_m := 0\<rparr>)"

definition RawMemory_dtor :: "RawMemory \<Rightarrow> 'a memory \<Rightarrow> 'a memory option" where
  "RawMemory_dtor m h = Deallocate (buffer_m m) h"

definition RawMemory_Swap :: "RawMemory \<Rightarrow> RawMemory \<Rightarrow> RawMemory \<times> RawMemory" where
  "RawMemory_Swap this other =
     (this\<lparr>buffer_m := buffer_m other, capacity_m := capacity_m other\<rparr>,
      other\<lparr>buffer_m := buffer_m this, capacity_m := capacity_m this\<rparr>)"

definition GetAddress :: "RawMemory \<Rightarrow> ptr" where
  "GetAddress m = buffer_m m"

section \<open>Vector\<close>

record Vector =
  data_m :: RawMemory
  size_m :: nat

definition begin_p :: "Vector \<Rightarrow> ptr" where
  "begin_p v = GetAddress (data_m v)"

definition end_p :: "Vector \<Rightarrow> ptr" where
  "end_p v = ptr_add (GetAddress (data_m v)) (size_m v)"

definition Size :: "Vector \<Rightarrow> nat" where
  "Size v = size_m v"

definition Capacity :: "Vector \<Rightarrow> nat" where
  "Capacity v = capacity_m (data_m v)"

text \<open>\<open>operator[]\<close>: the element, when \<open>index < size_\<close> and the slot is live.\<close>

definition at_index :: "'a memory \<Rightarrow> Vector \<Rightarrow> nat \<Rightarrow> 'a option" where
  "at_index h v index =
     (if index < size_m v then load h (ptr_add (GetAddress (data_m v)) index) else None)"

subsection \<open>Construction and destruction\<close>

definition Vector_default :: Vector where
  "Vector_default = \<lparr>data_m = RawMemory_default, size_m = 0\<rparr>"

text \<open>
  When the body of a constructor throws, the member \<open>data_\<close> is already constructed
  and its destructor releases the block.
\<close>

definition unwind_data :: "RawMemory \<Rightarrow> failure \<Rightarrow> 'a memory \<Rightarrow> ('r, 'a memory) outcome" where
  "unwind_data m e h = (case RawMemory_dtor m h of None \<Rightarrow> UB | Some h' \<Rightarrow> Throw e h')"

definition Vector_sized ::
  "'a elem_type \<Rightarrow> nat \<Rightarrow> 'a memory \<Rightarrow> (Vector \<times> 'a memory, 'a memory) outcome" where
  "Vector_sized T n h =
     (case RawMemory_new n h of
        UB \<Rightarrow> UB
      | Throw e h1 \<Rightarrow> Throw e h1
      | Done (d, h1) \<Rightarrow>
          (case uninitialized_value_construct_n T (GetAddress d) n h1 of
             UB \<Rightarrow> UB
           | Throw e h2 \<Rightarrow> unwind_data d e h2
           | Done h2 \<Rightarrow> Done (\<lparr>data_m = d, size_m = n\<rparr>, h2)))"

definition Vector_copy ::
  "'a elem_type \<Rightarrow> Vector \<Rightarrow> 'a memory \<Rightarrow> (Vector \<times> 'a memory, 'a memory) outcome" where
  "Vector_copy T other h =
     (case RawMemory_new (size_m other) h of
        UB \<Rightarrow> UB
      | Throw e h1 \<Rightarrow> Throw e h1
      | Done (d, h1) \<Rightarrow>
          (case uninitialized_copy_n T (begin_p other) (size_m other) (GetAddress d) h1 of
             UB \<Rightarrow> UB
           | Throw e h2 \<Rightarrow> unwind_data d e h2
           | Done h2 \<Rightarrow> Done (\<lparr>data_m = d, size_m = size_m other\<rparr>, h2)))"

text \<open>The move constructor: the new vector and what is left of \<open>other\<close>.\<close>

definition Vector_move :: "Vector \<Rightarrow> Vector \<times> Vector" where
  "Vector_move other =
     (case RawMemory_move (data_m other) of
        (d, od) \<Rightarrow> (\<lparr>data_m = d, size_m = size_m other\<rparr>, \<lparr>data_m = od, size_m = 0\<rparr>))"

text \<open>\<open>~Vector\<close>, followed by the destructor of the member \<open>data_\<close>.\<close>

definition Vector_dtor :: "Vector \<Rightarrow> 'a memory \<Rightarrow> 'a memory option" where
  "Vector_dtor v h =
     (case destroy_n (begin_p v) (size_m v) h of None \<Rightarrow> None
      | Some h' \<Rightarrow> RawMemory_dtor (data_m v) h')"

definition Vector_Swap :: "Vector \<Rightarrow> Vector \<Rightarrow> Vector \<times> Vector" where
  "Vector_Swap this other =
     (case RawMemory_Swap (data_m this) (data_m other) of
        (d, od) \<Rightarrow> (\<lparr>data_m = d, size_m = size_m other\<rparr>, \<lparr>data_m = od, size_m = size_m this\<rparr>))"


subsection \<open>Member functions of one vector\<close>

text \<open>
  A member function runs on the memory and the fields of \<open>*this\<close> and gives both
  back, also when it throws.
\<close>

type_synonym 'a vstate = "'a memory \<times> Vector"

text \<open>
  The arguments of a constructor call \<open>T(args...)\<close> are modelled by what the call
  gives: \<open>Some x\<close> for the object constructed, \<open>None\<close> when it throws.
  \<open>T(value)\<close> copies, \<open>T(std::move(value))\<close> moves.
\<close>

definition copy_of :: "'a elem_type \<Rightarrow> 'a \<Rightarrow> 'a option" where
  "copy_of T x = (if copy_throws T x then None else Some x)"

definition move_of :: "'a elem_type \<Rightarrow> 'a \<Rightarrow> 'a option" where
  "move_of T x = (if move_fails T x then None else Some x)"

text \<open>\<open>new (p) T(args...)\<close>.\<close>

definition construct_from :: "'a option \<Rightarrow> ptr \<Rightarrow> 'a memory \<Rightarrow> ('a memory, 'a memory) outcome" where
  "construct_from args p h =
     (case args of None \<Rightarrow> Throw element_failure h
      | Some x \<Rightarrow> (case construct_at p x h of None \<Rightarrow> UB | Some h' \<Rightarrow> Done h'))"

text \<open>
  The relocation policy, written four times in the source as
  \<open>if constexpr (is_nothrow_move_constructible_v<T> || !is_copy_constructible_v<T>)\<close>.
\<close>

definition relocate_n ::
  "'a elem_type \<Rightarrow> ptr \<Rightarrow> nat \<Rightarrow> ptr \<Rightarrow> 'a memory \<Rightarrow> ('a memory, 'a memory) outcome" where
  "relocate_n T first n d_first h =
     (if is_nothrow_move_constructible T \<or> \<not> is_copy_constructible T
      then uninitialized_move_n T first n d_first h
      else uninitialized_copy_n T first n d_first h)"

text \<open>An exception while the local \<open>new_data\<close> is alive runs its destructor.\<close>

definition unwind_local ::
  "RawMemory \<Rightarrow> Vector \<Rightarrow> failure \<Rightarrow> 'a memory \<Rightarrow> ('r, 'a vstate) outcome" where
  "unwind_local new_data v e h =
     (case RawMemory_dtor new_data h of None \<Rightarrow> UB | Some h' \<Rightarrow> Throw e (h', v))"

text \<open>
  The end of every growth path: \<open>std::destroy_n(begin(), size_); data_.Swap(new_data);\<close>
  and then the destructor of \<open>new_data\<close>, which now holds the old block.
\<close>

definition swap_in :: "Vector \<Rightarrow> RawMemory \<Rightarrow> 'a memory \<Rightarrow> ('a vstate, 'a vstate) outcome" where
  "swap_in v new_data h =
     (case destroy_n (begin_p v) (size_m v) h of None \<Rightarrow> UB
      | Some h1 \<Rightarrow>
          (case RawMemory_Swap (data_m v) new_data of
             (d, old) \<Rightarrow>
               (case RawMemory_dtor old h1 of None \<Rightarrow> UB
                | Some h2 \<Rightarrow> Done (h2, v\<lparr>data_m := d\<rparr>))))"

fun Reserve :: "'a elem_type \<Rightarrow> nat \<Rightarrow> 'a vstate \<Rightarrow> ('a vstate, 'a vstate) outcome" where
  "Reserve T new_capacity (h, v) =
     (if new_capacity \<le> capacity_m (data_m v) then Done (h, v)
      else
        (case RawMemory_new new_capacity h of
           UB \<Rightarrow> UB
         | Throw e h1 \<Rightarrow> Throw e (h1, v)
         | Done (new_data, h1) \<Rightarrow>
             (case relocate_n T (begin_p v) (size_m v) (GetAddress new_data) h1 of
                UB \<Rightarrow> UB
              | Throw e h2 \<Rightarrow> unwind_local new_data v e h2
              | Done h2 \<Rightarrow> swap_in v new_data h2)))"

fun Resize :: "'a elem_type \<Rightarrow> nat \<Rightarrow> 'a vstate \<Rightarrow> ('a vstate, 'a vstate) outcome" where
  "Resize T new_size (h, v) =
     (case (if new_size < size_m v
            then destroy_n (ptr_add (begin_p v) new_size) (size_m v - new_size) h
            else Some h) of
        None \<Rightarrow> UB
      | Some h1 \<Rightarrow>
          if new_size > size_m v
          then
            (case Reserve T new_size (h1, v) of
               UB \<Rightarrow> UB
             | Throw e s \<Rightarrow> Throw e s
             | Done (h2, v2) \<Rightarrow>
                 (case uninitialized_value_construct_n T (begin_p v2) (new_size - size_m v2) h2 of
                    UB \<Rightarrow> UB
                  | Throw e h3 \<Rightarrow> Throw e (h3, v2)
                  | Done h3 \<Rightarrow> Done (h3, v2\<lparr>size_m := new_size\<rparr>)))
          else Done (h1, v\<lparr>size_m := new_size\<rparr>))"

text \<open>
  \<open>PushBack(const T&)\<close>, \<open>PushBack(T&&)\<close> and \<open>EmplaceBack\<close> have the same
  body up to the constructor call; \<open>append_body\<close> is that body before \<open>++size_\<close>.
\<close>

fun append_body :: "'a elem_type \<Rightarrow> 'a option \<Rightarrow> 'a vstate \<Rightarrow> ('a vstate, 'a vstate) outcome" where
  "append_body T args (h, v) =
     (if size_m v = Capacity v
      then
        (case RawMemory_new (if size_m v = 0 then 1 else size_m v * 2) h of
           UB \<Rightarrow> UB
         | Throw e h1 \<Rightarrow> Throw e (h1, v)
         | Done (new_data, h1) \<Rightarrow>
             (case construct_from args (ptr_add (GetAddress new_data) (size_m v)) h1 of
                UB \<Rightarrow> UB
              | Throw e h2 \<Rightarrow> unwind_local new_data v e h2
              | Done h2 \<Rightarrow>
                  (case relocate_n T (begin_p v) (size_m v) (GetAddress new_data) h2 of
                     UB \<Rightarrow> UB
                   | Throw e h3 \<Rightarrow> unwind_local new_data v e h3
                   | Done h3 \<Rightarrow> swap_in v new_data h3)))
      else
        (case construct_from args (ptr_add (begin_p v) (size_m v)) h of
           UB \<Rightarrow> UB
         | Throw e h1 \<Rightarrow> Throw e (h1, v)
         | Done h1 \<Rightarrow> Done (h1, v)))"

definition increment_size :: "('a vstate, 'a vstate) outcome \<Rightarrow> ('a vstate, 'a vstate) outcome" where
  "increment_size r =
     (case r of Done (h, v) \<Rightarrow> Done (h, v\<lparr>size_m := size_m v + 1\<rparr>)
      | Throw e s \<Rightarrow> Throw e s
      | UB \<Rightarrow> UB)"

definition PushBack :: "'a elem_type \<Rightarrow> 'a \<Rightarrow> 'a vstate \<Rightarrow> ('a vstate, 'a vstate) outcome" where
  "PushBack T x s = increment_size (append_body T (copy_of T x) s)"

definition PushBack_move :: "'a elem_type \<Rightarrow> 'a \<Rightarrow> 'a vstate \<Rightarrow> ('a vstate, 'a vstate) outcome" where
  "PushBack_move T x s = increment_size (append_body T (move_of T x) s)"

text \<open>\<open>EmplaceBack\<close> also returns \<open>*(end() - 1)\<close>, here the address of it.\<close>

definition EmplaceBack ::
  "'a elem_type \<Rightarrow> 'a option \<Rightarrow> 'a vstate \<Rightarrow> (ptr \<times> 'a vstate, 'a vstate) outcome" where
  "EmplaceBack T args s =
     (case increment_size (append_body T args s) of
        UB \<Rightarrow> UB
      | Throw e s' \<Rightarrow> Throw e s'
      | Done (h, v) \<Rightarrow>
          (case ptr_sub (end_p v) 1 of None \<Rightarrow> UB | Some p \<Rightarrow> Done (p, (h, v))))"

fun PopBack :: "'a vstate \<Rightarrow> ('a vstate, 'a vstate) outcome" where
  "PopBack (h, v) =
     (if size_m v > 0
      then
        (case ptr_sub (end_p v) 1 of None \<Rightarrow> UB
         | Some p \<Rightarrow>
             (case destroy_n p 1 h of None \<Rightarrow> UB
              | Some h1 \<Rightarrow> Done (h1, v\<lparr>size_m := size_m v - 1\<rparr>)))
      else Done (h, v))"

text \<open>The body of \<open>Emplace\<close> between the computation of \<open>ind\<close> and \<open>++size_\<close>.\<close>

fun emplace_body ::
  "'a elem_type \<Rightarrow> ptr \<Rightarrow> nat \<Rightarrow> 'a option \<Rightarrow> 'a vstate \<Rightarrow> ('a vstate, 'a vstate) outcome" where
  "emplace_body T pos ind args (h, v) =
     (if size_m v = Capacity v
      then
        (case RawMemory_new (if size_m v = 0 then 1 else size_m v * 2) h of
           UB \<Rightarrow> UB
         | Throw e h1 \<Rightarrow> Throw e (h1, v)
         | Done (new_data, h1) \<Rightarrow>
             (case construct_from args (ptr_add (GetAddress new_data) ind) h1 of
                UB \<Rightarrow> UB
              | Throw e h2 \<Rightarrow> unwind_local new_data v e h2
              | Done h2 \<Rightarrow>
                  (case relocate_n T (begin_p v) ind (GetAddress new_data) h2 of
                     UB \<Rightarrow> UB
                   | Throw e h3 \<Rightarrow> unwind_local new_data v e h3
                   | Done h3 \<Rightarrow>
                       (case relocate_n T (ptr_add (begin_p v) ind) (size_m v - ind)
                               (ptr_add (ptr_add (GetAddress new_data) ind) 1) h3 of
                          UB \<Rightarrow> UB
                        | Throw e h4 \<Rightarrow> unwind_local new_data v e h4
                        | Done h4 \<Rightarrow> swap_in v new_data h4))))
      else if pos = end_p v
      then
        (case construct_from args (ptr_add (begin_p v) (size_m v)) h of
           UB \<Rightarrow> UB
         | Throw e h1 \<Rightarrow> Throw e (h1, v)
         | Done h1 \<Rightarrow> Done (h1, v))
      else
        (case args of
           None \<Rightarrow> Throw element_failure (h, v)
         | Some tmp \<Rightarrow>
             (case ptr_sub (end_p v) 1 of None \<Rightarrow> UB
              | Some back \<Rightarrow>
                  (case move_construct T back (ptr_add (begin_p v) (size_m v)) h of
                     UB \<Rightarrow> UB
                   | Throw e h1 \<Rightarrow> Throw e (h1, v)
                   | Done h1 \<Rightarrow>
                       (case move_backward T (ptr_add (begin_p v) ind) back (end_p v) h1 of
                          UB \<Rightarrow> UB
                        | Throw e h2 \<Rightarrow> Throw e (h2, v)
                        | Done h2 \<Rightarrow>
                            if move_throws T tmp then Throw element_failure (h2, v)
                            else (case assign_at (ptr_add (GetAddress (data_m v)) ind) tmp h2 of
                                    None \<Rightarrow> UB
                                  | Some h3 \<Rightarrow> Done (h3, v)))))))"

definition Emplace ::
  "'a elem_type \<Rightarrow> ptr \<Rightarrow> 'a option \<Rightarrow> 'a vstate \<Rightarrow> (ptr \<times> 'a vstate, 'a vstate) outcome" where
  "Emplace T pos args s =
     (case distance (begin_p (snd s)) pos of None \<Rightarrow> UB
      | Some ind \<Rightarrow>
          (case increment_size (emplace_body T pos ind args s) of
             UB \<Rightarrow> UB
           | Throw e s' \<Rightarrow> Throw e s'
           | Done (h, v) \<Rightarrow> Done (ptr_add (begin_p v) ind, (h, v))))"


definition Insert_move ::
  "'a elem_type \<Rightarrow> ptr \<Rightarrow> 'a \<Rightarrow> 'a vstate \<Rightarrow> (ptr \<times> 'a vstate, 'a vstate) outcome" where
  "Insert_move T pos x s = Emplace T pos (move_of T x) s"



subsection \<open>Operations on two vectors\<close>

text \<open>
  Assignment, move and swap involve two \<open>Vector\<close> objects, which may be one and
  the same. The program state therefore names its vector objects: \<open>vecs\<close> maps the
  identity (address) of each \<open>Vector\<close> object to its fields.
\<close>

record 'a state =
  heap :: "'a memory"
  vecs :: "nat \<rightharpoonup> Vector"

text \<open>Calling a member function of the object \<open>this\<close>.\<close>

definition on_vector ::
  "nat \<Rightarrow> ('a vstate \<Rightarrow> ('a vstate, 'a vstate) outcome) \<Rightarrow> 'a state \<Rightarrow> ('a state, 'a state) outcome" where
  "on_vector this f st =
     (case vecs st this of None \<Rightarrow> UB
      | Some v \<Rightarrow>
          (case f (heap st, v) of
             UB \<Rightarrow> UB
           | Throw e (h', v') \<Rightarrow> Throw e (st\<lparr>heap := h', vecs := (vecs st)(this \<mapsto> v')\<rparr>)
           | Done (h', v') \<Rightarrow> Done (st\<lparr>heap := h', vecs := (vecs st)(this \<mapsto> v')\<rparr>)))"

text \<open>Declaring a vector object \<open>this\<close> with one of the constructors.\<close>

definition new_default :: "nat \<Rightarrow> 'a state \<Rightarrow> ('a state, 'a state) outcome" where
  "new_default this st = Done (st\<lparr>vecs := (vecs st)(this \<mapsto> Vector_default)\<rparr>)"

definition new_sized :: "'a elem_type \<Rightarrow> nat \<Rightarrow> nat \<Rightarrow> 'a state \<Rightarrow> ('a state, 'a state) outcome" where
  "new_sized T this n st =
     (case Vector_sized T n (heap st) of
        UB \<Rightarrow> UB
      | Throw e h' \<Rightarrow> Throw e (st\<lparr>heap := h'\<rparr>)
      | Done (v, h') \<Rightarrow> Done (st\<lparr>heap := h', vecs := (vecs st)(this \<mapsto> v)\<rparr>))"

definition new_copy :: "'a elem_type \<Rightarrow> nat \<Rightarrow> nat \<Rightarrow> 'a state \<Rightarrow> ('a state, 'a state) outcome" where
  "new_copy T this other st =
     (case vecs st other of None \<Rightarrow> UB
      | Some ov \<Rightarrow>
          (case Vector_copy T ov (heap st) of
             UB \<Rightarrow> UB
           | Throw e h' \<Rightarrow> Throw e (st\<lparr>heap := h'\<rparr>)
           | Done (v, h') \<Rightarrow> Done (st\<lparr>heap := h', vecs := (vecs st)(this \<mapsto> v)\<rparr>)))"

definition new_move :: "nat \<Rightarrow> nat \<Rightarrow> 'a state \<Rightarrow> ('a state, 'a state) outcome" where
  "new_move this other st =
     (case vecs st other of None \<Rightarrow> UB
      | Some ov \<Rightarrow>
          (case Vector_move ov of
             (v, ov') \<Rightarrow> Done (st\<lparr>vecs := (vecs st)(other \<mapsto> ov', this \<mapsto> v)\<rparr>)))"

text \<open>
  \<open>operator=(const Vector& rhs)\<close>. The local \<open>rhs_copy\<close> is destroyed at the end
  of its block, after the swap.
\<close>

definition copy_assign :: "'a elem_type \<Rightarrow> nat \<Rightarrow> nat \<Rightarrow> 'a state \<Rightarrow> ('a state, 'a state) outcome" where
  "copy_assign T this rhs st =
     (if this \<noteq> rhs
      then
        (case (vecs st this, vecs st rhs) of
           (Some t, Some r) \<Rightarrow>
             if size_m r > capacity_m (data_m t)
             then
               (case Vector_copy T r (heap st) of
                  UB \<Rightarrow> UB
                | Throw e h1 \<Rightarrow> Throw e (st\<lparr>heap := h1\<rparr>)
                | Done (rhs_copy, h1) \<Rightarrow>
                    (case Vector_Swap t rhs_copy of
                       (t', rhs_copy') \<Rightarrow>
                         (case Vector_dtor rhs_copy' h1 of None \<Rightarrow> UB
                          | Some h2 \<Rightarrow>
                              Done (st\<lparr>heap := h2, vecs := (vecs st)(this \<mapsto> t')\<rparr>))))
             else if size_m r < size_m t
             then
               (case copy_range T (begin_p r) (ptr_add (begin_p r) (size_m r)) (begin_p t)
                       (heap st) of
                  UB \<Rightarrow> UB
                | Throw e h1 \<Rightarrow> Throw e (st\<lparr>heap := h1\<rparr>)
                | Done h1 \<Rightarrow>
                    (case destroy_n (ptr_add (begin_p t) (size_m r)) (size_m t - size_m r) h1 of
                       None \<Rightarrow> UB
                     | Some h2 \<Rightarrow>
                         Done (st\<lparr>heap := h2,
                                  vecs := (vecs st)(this \<mapsto> t\<lparr>size_m := size_m r\<rparr>)\<rparr>)))
             else
               (case copy_range T (begin_p r) (ptr_add (begin_p r) (size_m t)) (begin_p t)
                       (heap st) of
                  UB \<Rightarrow> UB
                | Throw e h1 \<Rightarrow> Throw e (st\<lparr>heap := h1\<rparr>)
                | Done h1 \<Rightarrow>
                    (case uninitialized_copy_n T (ptr_add (begin_p r) (size_m t))
                            (size_m r - size_m t) (ptr_add (begin_p t) (size_m t)) h1 of
                       UB \<Rightarrow> UB
                     | Throw e h2 \<Rightarrow> Throw e (st\<lparr>heap := h2\<rparr>)
                     | Done h2 \<Rightarrow>
                         Done (st\<lparr>heap := h2,
                                  vecs := (vecs st)(this \<mapsto> t\<lparr>size_m := size_m r\<rparr>)\<rparr>)))
         | _ \<Rightarrow> UB)
      else Done st)"

text \<open>\<open>operator=(Vector&& rhs)\<close>.\<close>

definition move_assign :: "nat \<Rightarrow> nat \<Rightarrow> 'a state \<Rightarrow> ('a state, 'a state) outcome" where
  "move_assign this rhs st =
     (if this \<noteq> rhs
      then
        (case (vecs st this, vecs st rhs) of
           (Some t, Some r) \<Rightarrow>
             (case RawMemory_move_assign (data_m t) (data_m r) of
                (d, rd) \<Rightarrow>
                  Done (st\<lparr>vecs := (vecs st)(this \<mapsto> t\<lparr>data_m := d, size_m := size_m r\<rparr>,
                                               rhs \<mapsto> r\<lparr>data_m := rd, size_m := 0\<rparr>)\<rparr>))
         | _ \<Rightarrow> UB)
      else Done st)"

text \<open>
  \<open>Swap(Vector& other)\<close>; when \<open>other\<close> is \<open>*this\<close> both writes go to the one
  object, the later one last.
\<close>

definition Swap :: "nat \<Rightarrow> nat \<Rightarrow> 'a state \<Rightarrow> ('a state, 'a state) outcome" where
  "Swap this other st =
     (case (vecs st this, vecs st other) of
        (Some t, Some ov) \<Rightarrow>
          (case Vector_Swap t ov of
             (t', ov') \<Rightarrow> Done (st\<lparr>vecs := (vecs st)(other \<mapsto> ov', this \<mapsto> t')\<rparr>))
      | _ \<Rightarrow> UB)"

text \<open>The end of the lifetime of the object \<open>this\<close>.\<close>

definition delete_vector :: "nat \<Rightarrow> 'a state \<Rightarrow> ('a state, 'a state) outcome" where
  "delete_vector this st =
     (case vecs st this of None \<Rightarrow> UB
      | Some v \<Rightarrow>
          (case Vector_dtor v (heap st) of None \<Rightarrow> UB
           | Some h' \<Rightarrow> Done (st\<lparr>heap := h', vecs := (vecs st)(this := None)\<rparr>)))"

subsection \<open>What a vector holds\<close>

text \<open>The elements \<open>[0, size_)\<close> as a list, when every one of them is a live object.\<close>

definition elements :: "'a memory \<Rightarrow> Vector \<Rightarrow> 'a list option" where
  "elements h v = those (map (at_index h v) [0..<size_m v])"

text \<open>
  The invariant of the data model, with the contents named: \<open>v\<close> holds exactly
  \<open>xs\<close> when its size is the length of \<open>xs\<close>, its block has \<open>Capacity v\<close>
  slots, the first of them are the live objects \<open>xs\<close> and the others are raw; a
  vector of capacity zero has no block.
\<close>

definition holds :: "'a memory \<Rightarrow> Vector \<Rightarrow> 'a list \<Rightarrow> bool" where
  "holds h v xs =
     (size_m v = length xs \<and> length xs \<le> Capacity v \<and>
      (case buffer_m (data_m v) of
         nullptr \<Rightarrow> Capacity v = 0
       | Addr a i \<Rightarrow>
           i = 0 \<and> 0 < Capacity v \<and>
           block_at h a = Some (map Some xs @ replicate (Capacity v - length xs) None)))"

section \<open>Auxiliary notions\<close>

text \<open>Memory after a block is overwritten, allocated or released.\<close>

definition set_block :: "nat \<Rightarrow> 'a block \<Rightarrow> 'a memory \<Rightarrow> 'a memory" where
  "set_block a b h = h\<lparr>blocks := (blocks h)[a := Some b]\<rparr>"

definition alloc_block :: "nat \<Rightarrow> 'a memory \<Rightarrow> 'a memory" where
  "alloc_block n h = h\<lparr>blocks := blocks h @ [Some (replicate n None)], avail := avail h - n\<rparr>"

definition free_block :: "nat \<Rightarrow> nat \<Rightarrow> 'a memory \<Rightarrow> 'a memory" where
  "free_block a n h = h\<lparr>blocks := (blocks h)[a := None], avail := avail h + n\<rparr>"

text \<open>
  The values a relocation may not fail on: it moves when the type is nothrow move
  constructible or not copy constructible, and copies otherwise.
\<close>

definition relocatable :: "'a elem_type \<Rightarrow> 'a list \<Rightarrow> bool" where
  "relocatable T ys =
     (if is_nothrow_move_constructible T \<or> \<not> is_copy_constructible T
      then list_all (\<lambda>y. \<not> move_fails T y) ys
      else list_all (\<lambda>y. \<not> copy_throws T y) ys)"

text \<open>The growth policy \<open>size_ == 0 ? 1 : size_ * 2\<close>.\<close>

definition grown :: "nat \<Rightarrow> nat" where
  "grown n = (if n = 0 then 1 else n * 2)"

text \<open>Sequencing calls: the next call runs when the previous one returned.\<close>

definition and_then :: "('r, 's) outcome \<Rightarrow> ('r \<Rightarrow> ('q, 's) outcome) \<Rightarrow> ('q, 's) outcome" where
  "and_then r f = (case r of Done x \<Rightarrow> f x | Throw e s \<Rightarrow> Throw e s | UB \<Rightarrow> UB)"

text \<open>The element type \<open>int\<close>; a memory with no block and \<open>n\<close> free slots.\<close>

definition int_type :: "int elem_type" where
  "int_type =
     \<lparr>value_init = Some 0, copy_throws = (\<lambda>_. False), move_throws = (\<lambda>_. False),
      moved_from = (\<lambda>x. x), is_nothrow_move_constructible = True,
      is_copy_constructible = True\<rparr>"

definition fresh_memory :: "nat \<Rightarrow> 'a memory" where
  "fresh_memory n = \<lparr>blocks = [], avail = n\<rparr>"

definition start :: "nat \<Rightarrow> 'a state" where
  "start n = \<lparr>heap = fresh_memory n, vecs = Map.empty\<rparr>"

text \<open>The vector \<open>[1, 2, 3]\<close> built by three calls of \<open>PushBack\<close> on an empty vector.\<close>

definition one_two_three :: "(int vstate, int vstate) outcome" where
  "one_two_three =
     and_then (and_then (PushBack int_type 1 (fresh_memory 100, Vector_default))
       (PushBack int_type 2)) (PushBack int_type 3)"

text \<open>Two vector objects: object 0 is \<open>[1, 2]\<close>, object 1 is \<open>[7]\<close>.\<close>

definition two_vectors :: "(int state, int state) outcome" where
  "two_vectors =
     and_then (and_then (and_then (and_then (new_default 0 (start 100))
       (on_vector 0 (PushBack int_type 1)))
       (on_vector 0 (PushBack int_type 2)))
       (new_default 1))
       (on_vector 1 (PushBack int_type 7))"

definition two_vectors_state :: "int state" where
  "two_vectors_state =
     \<lparr>heap = \<lparr>blocks = [None, Some [Some 1, Some 2], Some [Some 7]], avail = 97\<rparr>,
      vecs = [0 \<mapsto> \<lparr>data_m = \<lparr>buffer_m = Addr 1 0, capacity_m = 2\<rparr>, size_m = 2\<rparr>,
              1 \<mapsto> \<lparr>data_m = \<lparr>buffer_m = Addr 2 0, capacity_m = 1\<rparr>, size_m = 1\<rparr>]\<rparr>"

text \<open>Two vector objects never share a block.\<close>

definition separate :: "Vector \<Rightarrow> Vector \<Rightarrow> bool" where
  "separate t r = (buffer_m (data_m t) = nullptr \<or> buffer_m (data_m t) \<noteq> buffer_m (data_m r))"

text \<open>An element type like \<open>int\<close> whose copy throws on the value 2.\<close>

definition picky_type :: "int elem_type" where
  "picky_type = int_type\<lparr>copy_throws := (\<lambda>x. x = 2)\<rparr>"

section \<open>Memory lemmas\<close>


lemma block_at_set_block:
  "block_at (set_block a b h) c =
     (if c = a then (if a < length (blocks h) then Some b else None) else block_at h c)"
  by (simp add: block_at_def set_block_def)

lemma block_at_set_block_same [simp]:
  "block_at h a = Some b0 \<Longrightarrow> block_at (set_block a b h) a = Some b"
  by (auto simp: block_at_def set_block_def split: if_splits)

lemma block_at_set_block_other [simp]:
  "c \<noteq> a \<Longrightarrow> block_at (set_block a b h) c = block_at h c"
  by (simp add: block_at_set_block)

lemma set_block_twice [simp]: "set_block a b (set_block a b' h) = set_block a b h"
  by (simp add: set_block_def)

lemma set_block_same: "block_at h a = Some b \<Longrightarrow> set_block a b h = h"
  by (cases h) (auto simp: set_block_def block_at_def list_update_same_conv split: if_splits)

lemma avail_set_block [simp]: "avail (set_block a b h) = avail h"
  by (simp add: set_block_def)

lemma length_blocks_set_block [simp]: "length (blocks (set_block a b h)) = length (blocks h)"
  by (simp add: set_block_def)

lemma load_Addr:
  "block_at h a = Some b \<Longrightarrow> load h (Addr a i) = (if i < length b then b ! i else None)"
  by (simp add: load_def)

lemma store_Addr:
  "block_at h a = Some b \<Longrightarrow> i < length b \<Longrightarrow>
   store (Addr a i) s h = Some (set_block a (b[i := s]) h)"
  by (simp add: store_def set_block_def)

text \<open>A block seen as the slots before \<open>i\<close>, the slot \<open>i\<close> and the slots after it.\<close>

lemma load_mid:
  "block_at h a = Some (pre @ s # post) \<Longrightarrow> length pre = i \<Longrightarrow> load h (Addr a i) = s"
  by (auto simp: load_Addr nth_append)

lemma store_mid:
  "block_at h a = Some (pre @ s # post) \<Longrightarrow> length pre = i \<Longrightarrow>
   store (Addr a i) s' h = Some (set_block a (pre @ s' # post) h)"
  by (auto simp: store_Addr)

lemma construct_mid:
  "block_at h a = Some (pre @ s # post) \<Longrightarrow> length pre = i \<Longrightarrow>
   construct_at (Addr a i) x h = Some (set_block a (pre @ Some x # post) h)"
  by (simp add: construct_at_def store_mid)

lemma destroy_mid:
  "block_at h a = Some (pre @ Some x # post) \<Longrightarrow> length pre = i \<Longrightarrow>
   destroy_at (Addr a i) h = Some (set_block a (pre @ None # post) h)"
  by (simp add: destroy_at_def load_mid store_mid)

lemma assign_mid:
  "block_at h a = Some (pre @ Some y # post) \<Longrightarrow> length pre = i \<Longrightarrow>
   assign_at (Addr a i) x h = Some (set_block a (pre @ Some x # post) h)"
  by (simp add: assign_at_def load_mid store_mid)

lemma destroy_n_range:
  "block_at h a = Some (pre @ map Some xs @ post) \<Longrightarrow> length pre = i \<Longrightarrow>
   destroy_n (Addr a i) (length xs) h =
     Some (set_block a (pre @ replicate (length xs) None @ post) h)"
proof (induction xs arbitrary: pre i h)
  case Nil
  then show ?case by (simp add: set_block_same)
next
  case (Cons x xs)
  have d: "destroy_at (Addr a i) h = Some (set_block a (pre @ None # map Some xs @ post) h)"
    using Cons.prems by (simp add: destroy_mid)
  have b: "block_at (set_block a (pre @ None # map Some xs @ post) h) a
             = Some ((pre @ [None]) @ map Some xs @ post)"
    using Cons.prems by simp
  show ?case
    using Cons.IH [OF b, of "Suc i"] Cons.prems d
    by (simp add: replicate_app_Cons_same)
qed


lemma set_block_commute:
  "a \<noteq> c \<Longrightarrow> set_block a b (set_block c b' h) = set_block c b' (set_block a b h)"
  by (simp add: set_block_def list_update_swap)

lemma uninit_copy_loop_ok:
  "a \<noteq> c \<Longrightarrow> block_at h a = Some (spre @ map Some ys @ spost) \<Longrightarrow> length spre = s + i \<Longrightarrow>
   block_at h c = Some (dpre @ mid @ dpost) \<Longrightarrow> length dpre = d + i \<Longrightarrow>
   length mid = length ys \<Longrightarrow> list_all (\<lambda>y. \<not> copy_throws T y) ys \<Longrightarrow>
   uninit_copy_loop T (Addr a s) (Addr c d) i (length ys) h =
     Done (set_block c (dpre @ map Some ys @ dpost) h)"
proof (induction ys arbitrary: i spre dpre mid h)
  case Nil
  then show ?case by (simp add: set_block_same)
next
  case (Cons y ys)
  from Cons.prems obtain m mid' where mid: "mid = m # mid'"
    by (cases mid) auto
  let ?h = "set_block c (dpre @ Some y # mid' @ dpost) h"
  have l: "load h (Addr a (s + i)) = Some y"
    using Cons.prems by (simp add: load_mid)
  have c: "construct_at (Addr c (d + i)) y h = Some ?h"
    using Cons.prems mid by (simp add: construct_mid)
  have ba: "block_at ?h a = Some ((spre @ [Some y]) @ map Some ys @ spost)"
    using Cons.prems by simp
  have bc: "block_at ?h c = Some ((dpre @ [Some y]) @ mid' @ dpost)"
    using Cons.prems by simp
  have "uninit_copy_loop T (Addr a s) (Addr c d) (Suc i) (length ys) ?h =
          Done (set_block c ((dpre @ [Some y]) @ map Some ys @ dpost) ?h)"
    using Cons.prems mid by (intro Cons.IH [OF _ ba _ bc]) auto
  then show ?case
    using l c Cons.prems by simp
qed

lemma uninit_copy_loop_throws:
  "a \<noteq> c \<Longrightarrow> block_at h a = Some (spre @ map Some (ys @ z # zs) @ spost) \<Longrightarrow>
   length spre = s + i \<Longrightarrow>
   block_at h c = Some (dpre @ map Some dn @ mid @ dpost) \<Longrightarrow> length dpre = d \<Longrightarrow>
   length dn = i \<Longrightarrow> length mid = length ys \<Longrightarrow>
   list_all (\<lambda>y. \<not> copy_throws T y) ys \<Longrightarrow> copy_throws T z \<Longrightarrow>
   uninit_copy_loop T (Addr a s) (Addr c d) i (length ys + Suc (length zs)) h =
     Throw element_failure (set_block c (dpre @ replicate (i + length ys) None @ dpost) h)"
proof (induction ys arbitrary: i spre dn mid h)
  case Nil
  have l: "load h (Addr a (s + i)) = Some z"
    using Nil.prems by (simp add: load_mid)
  have "destroy_n (Addr c d) (length dn) h =
          Some (set_block c (dpre @ replicate (length dn) None @ dpost) h)"
    using Nil.prems by (intro destroy_n_range) auto
  then show ?case
    using l Nil.prems by (simp add: rollback_def)
next
  case (Cons y ys)
  from Cons.prems obtain m mid' where mid: "mid = m # mid'"
    by (cases mid) auto
  let ?h = "set_block c (dpre @ map Some (dn @ [y]) @ mid' @ dpost) h"
  have l: "load h (Addr a (s + i)) = Some y"
    using Cons.prems by (simp add: load_mid)
  have "block_at h c = Some ((dpre @ map Some dn) @ m # mid' @ dpost)"
    using Cons.prems mid by simp
  then have "construct_at (Addr c (d + i)) y h =
               Some (set_block c ((dpre @ map Some dn) @ Some y # mid' @ dpost) h)"
    using Cons.prems by (intro construct_mid) auto
  then have c: "construct_at (Addr c (d + i)) y h = Some ?h"
    by simp
  have ba: "block_at ?h a = Some ((spre @ [Some y]) @ map Some (ys @ z # zs) @ spost)"
    using Cons.prems by simp
  have bc: "block_at ?h c = Some (dpre @ map Some (dn @ [y]) @ mid' @ dpost)"
    using Cons.prems by simp
  have "uninit_copy_loop T (Addr a s) (Addr c d) (Suc i) (length ys + Suc (length zs)) ?h =
          Throw element_failure
            (set_block c (dpre @ replicate (Suc i + length ys) None @ dpost) ?h)"
    using Cons.prems mid by (intro Cons.IH [OF _ ba _ bc]) auto
  then show ?case
    using l c Cons.prems by simp
qed

lemma move_construct_ok:
  "block_at h a = Some (spre @ Some y # spost) \<Longrightarrow> length spre = s \<Longrightarrow> \<not> move_fails T y \<Longrightarrow>
   (a = c \<longrightarrow> spre @ Some (moved_from T y) # spost = dpre @ m # dpost) \<Longrightarrow>
   (a \<noteq> c \<longrightarrow> block_at h c = Some (dpre @ m # dpost)) \<Longrightarrow> length dpre = d \<Longrightarrow>
   move_construct T (Addr a s) (Addr c d) h =
     Done (set_block c (dpre @ Some y # dpost)
            (set_block a (spre @ Some (moved_from T y) # spost) h))"
  by (cases "a = c") (simp_all add: move_construct_def load_mid store_mid construct_mid)

lemma uninit_move_loop_ok:
  "a \<noteq> c \<Longrightarrow> block_at h a = Some (spre @ map Some ys @ spost) \<Longrightarrow> length spre = s + i \<Longrightarrow>
   block_at h c = Some (dpre @ mid @ dpost) \<Longrightarrow> length dpre = d + i \<Longrightarrow>
   length mid = length ys \<Longrightarrow> list_all (\<lambda>y. \<not> move_fails T y) ys \<Longrightarrow>
   uninit_move_loop T (Addr a s) (Addr c d) i (length ys) h =
     Done (set_block c (dpre @ map Some ys @ dpost)
            (set_block a (spre @ map Some (map (moved_from T) ys) @ spost) h))"
proof (induction ys arbitrary: i spre dpre mid h)
  case Nil
  then show ?case by (simp add: set_block_same)
next
  case (Cons y ys)
  from Cons.prems obtain m mid' where mid: "mid = m # mid'"
    by (cases mid) auto
  let ?h1 = "set_block a (spre @ Some (moved_from T y) # map Some ys @ spost) h"
  let ?h = "set_block c (dpre @ Some y # mid' @ dpost) ?h1"
  have mc: "move_construct T (Addr a (s + i)) (Addr c (d + i)) h = Done ?h"
    using Cons.prems mid by (intro move_construct_ok) auto
  have ba: "block_at ?h a = Some ((spre @ [Some (moved_from T y)]) @ map Some ys @ spost)"
    using Cons.prems by simp
  have bc: "block_at ?h c = Some ((dpre @ [Some y]) @ mid' @ dpost)"
    using Cons.prems by simp
  have "uninit_move_loop T (Addr a s) (Addr c d) (Suc i) (length ys) ?h =
          Done (set_block c ((dpre @ [Some y]) @ map Some ys @ dpost)
                 (set_block a ((spre @ [Some (moved_from T y)]) @ map Some (map (moved_from T) ys) @ spost) ?h))"
    using Cons.prems mid by (intro Cons.IH [OF _ ba _ bc]) auto
  then show ?case
    using mc Cons.prems by (simp add: set_block_commute [of a c])
qed


lemma copy_loop_ok:
  "a \<noteq> c \<Longrightarrow> block_at h a = Some (spre @ map Some ys @ spost) \<Longrightarrow> length spre = s \<Longrightarrow>
   block_at h c = Some (dpre @ map Some olds @ dpost) \<Longrightarrow> length dpre = d \<Longrightarrow>
   length olds = length ys \<Longrightarrow> list_all (\<lambda>y. \<not> copy_throws T y) ys \<Longrightarrow>
   copy_loop T (Addr a s) (Addr c d) (length ys) h =
     Done (set_block c (dpre @ map Some ys @ dpost) h)"
proof (induction ys arbitrary: s d spre dpre olds h)
  case Nil
  then show ?case by (simp add: set_block_same)
next
  case (Cons y ys)
  from Cons.prems obtain m olds' where olds: "olds = m # olds'"
    by (cases olds) auto
  let ?h = "set_block c (dpre @ Some y # map Some olds' @ dpost) h"
  have l: "load h (Addr a s) = Some y"
    using Cons.prems by (simp add: load_mid)
  have c: "assign_at (Addr c d) y h = Some ?h"
    using Cons.prems olds by (simp add: assign_mid)
  have ba: "block_at ?h a = Some ((spre @ [Some y]) @ map Some ys @ spost)"
    using Cons.prems by simp
  have bc: "block_at ?h c = Some ((dpre @ [Some y]) @ map Some olds' @ dpost)"
    using Cons.prems by simp
  have "copy_loop T (Addr a (Suc s)) (Addr c (Suc d)) (length ys) ?h =
          Done (set_block c ((dpre @ [Some y]) @ map Some ys @ dpost) ?h)"
    using Cons.prems olds by (intro Cons.IH [OF _ ba _ bc]) auto
  then show ?case
    using l c Cons.prems by simp
qed






subsection \<open>Allocation and release\<close>

lemma block_at_less: "block_at h a = Some b \<Longrightarrow> a < length (blocks h)"
  by (simp add: block_at_def split: if_splits)

lemma block_at_fresh [simp]: "block_at h (length (blocks h)) = None"
  by (simp add: block_at_def)

lemma block_at_alloc_new [simp]:
  "block_at (alloc_block n h) (length (blocks h)) = Some (replicate n None)"
  by (simp add: block_at_def alloc_block_def)

lemma block_at_alloc_old [simp]:
  "block_at h a = Some b \<Longrightarrow> block_at (alloc_block n h) a = Some b"
  by (auto simp: block_at_def alloc_block_def nth_append split: if_splits)

lemma block_at_free [simp]:
  "block_at (free_block a n h) c = (if c = a then None else block_at h c)"
  by (auto simp: block_at_def free_block_def)

lemma RawMemory_new_ok:
  "0 < n \<Longrightarrow> n \<le> avail h \<Longrightarrow>
   RawMemory_new n h =
     Done (\<lparr>buffer_m = Addr (length (blocks h)) 0, capacity_m = n\<rparr>, alloc_block n h)"
  by (simp add: RawMemory_new_def Allocate_def alloc_block_def)

lemma RawMemory_new_fails:
  "0 < n \<Longrightarrow> avail h < n \<Longrightarrow> RawMemory_new n h = Throw bad_alloc h"
  by (simp add: RawMemory_new_def Allocate_def)

lemma RawMemory_new_zero:
  "RawMemory_new 0 h = Done (\<lparr>buffer_m = nullptr, capacity_m = 0\<rparr>, h)"
  by (simp add: RawMemory_new_def Allocate_def)

lemma Deallocate_ok:
  "block_at h a = Some b \<Longrightarrow> Deallocate (Addr a 0) h = Some (free_block a (length b) h)"
  by (simp add: Deallocate_def free_block_def)

lemma RawMemory_Swap_eq: "RawMemory_Swap d nd = (nd, d)"
  by (simp add: RawMemory_Swap_def)

lemma swap_in_Addr:
  "buffer_m (data_m v) = Addr a 0 \<Longrightarrow> block_at h a = Some (map Some ys @ post) \<Longrightarrow>
   size_m v = length ys \<Longrightarrow>
   swap_in v nd h =
     Done (free_block a (length ys + length post)
             (set_block a (replicate (length ys) None @ post) h), v\<lparr>data_m := nd\<rparr>)"
proof -
  assume a: "buffer_m (data_m v) = Addr a 0" and b: "block_at h a = Some (map Some ys @ post)"
    and n: "size_m v = length ys"
  have "block_at h a = Some ([] @ map Some ys @ post)"
    using b by simp
  then have "destroy_n (Addr a 0) (length ys) h =
               Some (set_block a ([] @ replicate (length ys) None @ post) h)"
    by (rule destroy_n_range) simp
  moreover have "Deallocate (Addr a 0) (set_block a (replicate (length ys) None @ post) h) =
      Some (free_block a (length (replicate (length ys) (None :: 'a option) @ post))
              (set_block a (replicate (length ys) None @ post) h))"
    using b by (intro Deallocate_ok) simp
  ultimately show ?thesis
    using a n
    by (simp add: swap_in_def begin_p_def GetAddress_def RawMemory_Swap_eq RawMemory_dtor_def)
qed

lemma swap_in_null:
  "buffer_m (data_m v) = nullptr \<Longrightarrow> size_m v = 0 \<Longrightarrow>
   swap_in v nd h = Done (h, v\<lparr>data_m := nd\<rparr>)"
  by (simp add: swap_in_def begin_p_def GetAddress_def RawMemory_Swap_eq RawMemory_dtor_def
      Deallocate_def)

lemma relocate_n_zero [simp]: "relocate_n T p 0 d h = Done h"
  by (simp add: relocate_n_def uninitialized_move_n_def uninitialized_copy_n_def)

lemma relocate_n_ok:
  assumes "a \<noteq> c" "block_at h a = Some (spre @ map Some ys @ spost)" "length spre = s"
    "block_at h c = Some (dpre @ mid @ dpost)" "length dpre = d"
    "length mid = length ys" "relocatable T ys"
  shows "\<exists>ys'. length ys' = length ys \<and>
     relocate_n T (Addr a s) (length ys) (Addr c d) h =
       Done (set_block c (dpre @ map Some ys @ dpost)
              (set_block a (spre @ map Some ys' @ spost) h))"
proof (cases "is_nothrow_move_constructible T \<or> \<not> is_copy_constructible T")
  case True
  have "uninit_move_loop T (Addr a s) (Addr c d) 0 (length ys) h =
     Done (set_block c (dpre @ map Some ys @ dpost)
            (set_block a (spre @ map Some (map (moved_from T) ys) @ spost) h))"
    using assms True by (intro uninit_move_loop_ok) (auto simp: relocatable_def)
  then show ?thesis
    using True by (intro exI [of _ "map (moved_from T) ys"])
      (simp add: relocate_n_def uninitialized_move_n_def)
next
  case False
  have "uninit_copy_loop T (Addr a s) (Addr c d) 0 (length ys) h =
     Done (set_block c (dpre @ map Some ys @ dpost) h)"
    using assms False by (intro uninit_copy_loop_ok) (auto simp: relocatable_def)
  then show ?thesis
    using False assms by (intro exI [of _ ys])
      (simp add: relocate_n_def uninitialized_copy_n_def set_block_same)
qed

subsection \<open>The invariant\<close>

lemma holds_null:
  "holds h v xs \<Longrightarrow> buffer_m (data_m v) = nullptr \<Longrightarrow>
   xs = [] \<and> size_m v = 0 \<and> Capacity v = 0"
  by (auto simp: holds_def)

lemma holds_Addr:
  "holds h v xs \<Longrightarrow> buffer_m (data_m v) = Addr a i \<Longrightarrow>
   i = 0 \<and> size_m v = length xs \<and> length xs \<le> Capacity v \<and> 0 < Capacity v \<and>
   block_at h a = Some (map Some xs @ replicate (Capacity v - length xs) None)"
  by (simp add: holds_def)

lemma holds_size: "holds h v xs \<Longrightarrow> size_m v = length xs"
  by (simp add: holds_def)

lemma holds_capacity_zero:
  "holds h v xs \<Longrightarrow> Capacity v = 0 \<Longrightarrow> buffer_m (data_m v) = nullptr"
  by (cases "buffer_m (data_m v)") (auto simp: holds_def)

lemma holds_capacity_pos:
  "holds h v xs \<Longrightarrow> 0 < Capacity v \<Longrightarrow> \<exists>a. buffer_m (data_m v) = Addr a 0"
  by (cases "buffer_m (data_m v)") (auto simp: holds_def)

lemma those_map_Some [simp]: "those (map Some xs) = Some xs"
  by (induction xs) auto

lemma holds_elements: "holds h v xs \<Longrightarrow> elements h v = Some xs"
proof (cases "buffer_m (data_m v)")
  case nullptr
  assume "holds h v xs"
  then show ?thesis
    using nullptr by (auto simp: holds_def elements_def)
next
  case (Addr a i)
  assume hv: "holds h v xs"
  note f = holds_Addr [OF hv Addr]
  have "map (at_index h v) [0..<length xs] = map Some xs"
    using f Addr
    by (intro nth_equalityI) (auto simp: at_index_def GetAddress_def load_Addr nth_append)
  then show ?thesis
    using f by (simp add: elements_def)
qed

lemma append_holds:
  assumes hv: "holds h v xs"
    and room: "length xs = Capacity v \<longrightarrow> grown (length xs) \<le> avail h \<and> relocatable T xs"
  shows "\<exists>h' v'. increment_size (append_body T (Some x) (h, v)) = Done (h', v') \<and>
           holds h' v' (xs @ [x]) \<and>
           Capacity v' = (if length xs = Capacity v then grown (length xs) else Capacity v)"
proof (cases "length xs = Capacity v")
  case False
  then have lt: "length xs < Capacity v"
    using hv by (simp add: holds_def)
  then obtain a where a: "buffer_m (data_m v) = Addr a 0"
    using holds_capacity_pos [OF hv] by auto
  note f = holds_Addr [OF hv a]
  obtain k where k: "Capacity v - length xs = Suc k"
    using lt by (cases "Capacity v - length xs") auto
  have b: "block_at h a = Some (map Some xs @ None # replicate k None)"
    using f k by simp
  have "construct_at (Addr a (length xs)) x h =
          Some (set_block a (map Some xs @ Some x # replicate k None) h)"
    using b by (intro construct_mid) auto
  then have "increment_size (append_body T (Some x) (h, v)) =
      Done (set_block a (map Some xs @ Some x # replicate k None) h,
            v\<lparr>size_m := Suc (length xs)\<rparr>)"
    using False f a
    by (simp add: increment_size_def construct_from_def begin_p_def GetAddress_def)
  moreover have "holds (set_block a (map Some xs @ Some x # replicate k None) h)
      (v\<lparr>size_m := Suc (length xs)\<rparr>) (xs @ [x])"
    using a b k lt by (auto simp: holds_def Capacity_def)
  ultimately show ?thesis
    using False by (simp add: Capacity_def)
next
  case True
  have sz: "size_m v = length xs" and cap: "Capacity v = length xs"
    using True holds_size [OF hv] by simp_all
  let ?c = "grown (length xs)"
  let ?L = "length (blocks h)"
  let ?nd = "\<lparr>buffer_m = Addr ?L 0, capacity_m = ?c\<rparr>"
  let ?h1 = "alloc_block ?c h"
  have c: "0 < ?c" "?c \<le> avail h" "length xs < ?c"
    using room True by (auto simp: grown_def)
  obtain k where k: "?c = length xs + Suc k"
    using c(3) by (metis less_iff_Suc_add add_Suc_right)
  let ?new = "map Some xs @ Some x # replicate k None"
  have "(if size_m v = 0 then 1 else size_m v * 2) = ?c"
    using holds_size [OF hv] by (simp add: grown_def)
  then have new: "RawMemory_new (if size_m v = 0 then 1 else size_m v * 2) h = Done (?nd, ?h1)"
    using RawMemory_new_ok [OF c(1,2)] by (simp only:)
  have b1: "block_at ?h1 ?L = Some (replicate (length xs) None @ None # replicate k None)"
    using k by (simp add: replicate_add replicate_append_same)
  let ?h2 = "set_block ?L (replicate (length xs) None @ Some x # replicate k None) ?h1"
  have con: "construct_at (Addr ?L (length xs)) x ?h1 = Some ?h2"
    using b1 by (intro construct_mid) auto
  have "\<exists>h'. (case relocate_n T (begin_p v) (size_m v) (Addr ?L 0) ?h2 of
                UB \<Rightarrow> UB
              | Throw e h3 \<Rightarrow> unwind_local ?nd v e h3
              | Done h3 \<Rightarrow> swap_in v ?nd h3) = Done (h', v\<lparr>data_m := ?nd\<rparr>) \<and>
            block_at h' ?L = Some ?new"
  proof (cases "buffer_m (data_m v)")
    case nullptr
    note f = holds_null [OF hv nullptr]
    show ?thesis
      using f nullptr b1 by (simp add: swap_in_null)
  next
    case (Addr a i)
    note f = holds_Addr [OF hv Addr]
    have ne: "a \<noteq> ?L"
      using f block_at_less by blast
    have ba: "block_at ?h2 a = Some ([] @ map Some xs @ [])"
      using f True ne by simp
    have bL: "block_at ?h2 ?L = Some ([] @ replicate (length xs) None @ Some x # replicate k None)"
      using b1 by simp
    obtain ys' where ys': "length ys' = length xs"
      and rel: "relocate_n T (Addr a 0) (length xs) (Addr ?L 0) ?h2 =
        Done (set_block ?L ([] @ map Some xs @ Some x # replicate k None)
               (set_block a ([] @ map Some ys' @ []) ?h2))"
      using relocate_n_ok [OF ne ba _ bL, of 0 0 T] room True by auto
    let ?h3 = "set_block ?L ?new (set_block a (map Some ys') ?h2)"
    have "block_at ?h3 a = Some (map Some ys' @ [])"
      using ne ba by simp
    then have "swap_in v ?nd ?h3 =
        Done (free_block a (length ys' + length ([] :: 'a option list))
               (set_block a (replicate (length ys') None @ []) ?h3), v\<lparr>data_m := ?nd\<rparr>)"
      using Addr f ys' by (intro swap_in_Addr) auto
    moreover have "block_at ?h3 ?L = Some ?new"
      using bL ne by simp
    ultimately show ?thesis
      using rel f Addr ne by (simp add: begin_p_def GetAddress_def)
  qed
  then obtain h' where
    h': "(case relocate_n T (begin_p v) (size_m v) (Addr ?L 0) ?h2 of
                UB \<Rightarrow> UB
              | Throw e h3 \<Rightarrow> unwind_local ?nd v e h3
              | Done h3 \<Rightarrow> swap_in v ?nd h3) = Done (h', v\<lparr>data_m := ?nd\<rparr>)"
    and bL: "block_at h' ?L = Some ?new"
    by blast
  have "increment_size (append_body T (Some x) (h, v)) =
          Done (h', v\<lparr>data_m := ?nd, size_m := Suc (length xs)\<rparr>)"
    using new con h'
    by (simp add: sz cap increment_size_def construct_from_def GetAddress_def)
  moreover have "holds h' (v\<lparr>data_m := ?nd, size_m := Suc (length xs)\<rparr>) (xs @ [x])"
    using bL k c by (simp add: holds_def Capacity_def)
  ultimately show ?thesis
    using True by (simp add: Capacity_def)
qed

subsection \<open>Appending, stated on the contents\<close>

lemma grown_max: "grown n = max 1 (2 * n)"
  by (simp add: grown_def)

lemma holds_at_index:
  "holds h v xs \<Longrightarrow> i < length xs \<Longrightarrow> at_index h v i = Some (xs ! i)"
proof -
  assume hv: "holds h v xs" and i: "i < length xs"
  then have "0 < Capacity v"
    by (auto simp: holds_def)
  then obtain a where a: "buffer_m (data_m v) = Addr a 0"
    using holds_capacity_pos [OF hv] by auto
  show ?thesis
    using holds_Addr [OF hv a] a i
    by (simp add: at_index_def GetAddress_def load_Addr nth_append)
qed

lemma PushBack_ok:
  assumes "holds h v xs" and "\<not> copy_throws T x"
    and "Size v = Capacity v \<longrightarrow> max 1 (2 * Size v) \<le> avail h \<and> relocatable T xs"
  shows "\<exists>h' v'. PushBack T x (h, v) = Done (h', v') \<and>
           EmplaceBack T (Some x) (h, v) = Done (ptr_add (begin_p v') (Size v), (h', v')) \<and>
           Size v' = Size v + 1 \<and> at_index h' v' (Size v) = Some x \<and>
           elements h' v' = Some (xs @ [x]) \<and> holds h' v' (xs @ [x]) \<and>
           Capacity v' = (if Size v = Capacity v then max 1 (2 * Size v) else Capacity v) \<and>
           Capacity v \<le> Capacity v'"
proof -
  have sz: "Size v = length xs"
    using assms(1) by (simp add: Size_def holds_def)
  have "length xs = Capacity v \<longrightarrow> grown (length xs) \<le> avail h \<and> relocatable T xs"
    using assms(3) by (simp add: sz grown_max)
  from append_holds [OF assms(1) this, of x]
  obtain h' v' where r: "increment_size (append_body T (Some x) (h, v)) = Done (h', v')"
    and hv': "holds h' v' (xs @ [x])"
    and cap: "Capacity v' = (if length xs = Capacity v then grown (length xs) else Capacity v)"
    by blast
  have sz': "size_m v' = Suc (length xs)"
    using hv' by (simp add: holds_def)
  then have "0 < Capacity v'"
    using hv' by (simp add: holds_def)
  then obtain a where a: "buffer_m (data_m v') = Addr a 0"
    using holds_capacity_pos [OF hv'] by auto
  have "PushBack T x (h, v) = Done (h', v')"
    using r assms(2) by (simp add: PushBack_def copy_of_def)
  moreover have "EmplaceBack T (Some x) (h, v) = Done (ptr_add (begin_p v') (Size v), (h', v'))"
    using r a sz sz' by (simp add: EmplaceBack_def end_p_def begin_p_def GetAddress_def)
  moreover have "at_index h' v' (Size v) = Some x"
    using holds_at_index [OF hv', of "length xs"] sz by simp
  moreover have "Capacity v \<le> Capacity v'"
    using cap assms(1) by (simp add: holds_def grown_def)
  ultimately show ?thesis
    using hv' cap sz sz' holds_elements [OF hv'] by (simp add: grown_max Size_def)
qed



lemma two_vectors_eq: "two_vectors = Done two_vectors_state"
  by (simp add: two_vectors_def two_vectors_state_def and_then_def new_default_def start_def
      on_vector_def PushBack_def int_type_def fresh_memory_def increment_size_def copy_of_def
      Vector_default_def RawMemory_default_def Capacity_def RawMemory_new_def Allocate_def
      construct_from_def construct_at_def store_def block_at_def GetAddress_def relocate_n_def
      uninitialized_move_n_def swap_in_def begin_p_def RawMemory_Swap_def RawMemory_dtor_def
      Deallocate_def move_construct_def load_def move_fails_def destroy_at_def rollback_def
      eval_nat_numeral)

lemma two_vectors_holds:
  "vecs two_vectors_state 0 = Some \<lparr>data_m = \<lparr>buffer_m = Addr 1 0, capacity_m = 2\<rparr>, size_m = 2\<rparr>"
  "vecs two_vectors_state 1 = Some \<lparr>data_m = \<lparr>buffer_m = Addr 2 0, capacity_m = 1\<rparr>, size_m = 1\<rparr>"
  "holds (heap two_vectors_state) \<lparr>data_m = \<lparr>buffer_m = Addr 1 0, capacity_m = 2\<rparr>, size_m = 2\<rparr> [1, 2]"
  "holds (heap two_vectors_state) \<lparr>data_m = \<lparr>buffer_m = Addr 2 0, capacity_m = 1\<rparr>, size_m = 1\<rparr> [7]"
  by (simp_all add: two_vectors_state_def holds_def Capacity_def block_at_def)

lemma Vector_Swap_eq: "Vector_Swap t ov = (ov, t)"
  by (simp add: Vector_Swap_def RawMemory_Swap_def)

subsection \<open>Moved-from vectors\<close>

lemma Vector_move_eq:
  "Vector_move v =
     (v, v\<lparr>data_m := (data_m v)\<lparr>buffer_m := nullptr, capacity_m := 0\<rparr>, size_m := 0\<rparr>)"
  by (cases v, cases "data_m v") (simp add: Vector_move_def RawMemory_move_def)

lemma Vector_overwritten:
  "t\<lparr>data_m := (data_m t)\<lparr>buffer_m := buffer_m (data_m v), capacity_m := capacity_m (data_m v)\<rparr>,
      size_m := size_m v\<rparr> = (v :: Vector)"
  by (cases v, cases "data_m v", cases t, cases "data_m t") simp

lemma holds_moved_from:
  "holds h (r\<lparr>data_m := (data_m r)\<lparr>buffer_m := nullptr, capacity_m := 0\<rparr>, size_m := 0\<rparr>) []"
  by (simp add: holds_def Capacity_def)

lemma PushBack_after_move:
  assumes "holds h e []" and "\<not> copy_throws T x" and "1 \<le> avail h"
  shows "\<exists>h' e'. PushBack T x (h, e) = Done (h', e') \<and> holds h' e' [x]"
proof -
  have "Size e = Capacity e \<longrightarrow> max 1 (2 * Size e) \<le> avail h \<and> relocatable T []"
    using assms by (simp add: Size_def holds_def relocatable_def)
  from PushBack_ok [OF assms(1,2) this] show ?thesis
    by auto
qed

subsection \<open>Copy assignment\<close>

lemma ptr_add_zero [simp]: "ptr_add p 0 = p"
  by (cases p) auto

lemma distance_ptr_add:
  "distance (Addr a i) (Addr a (i + n)) = Some n"
  by simp

lemma copy_range_empty [simp]: "copy_range T p p d h = Done h"
  by (cases p) (simp_all add: copy_range_def)

lemma uninitialized_copy_n_zero [simp]: "uninitialized_copy_n T p 0 d h = Done h"
  by (simp add: uninitialized_copy_n_def)

text \<open>Copying the first \<open>n\<close> elements of a vector over live objects of another block.\<close>

lemma copy_range_holds:
  assumes r: "holds h r ys" and b: "block_at h a = Some (map Some olds @ dpost)"
    and ne: "buffer_m (data_m r) \<noteq> Addr a 0"
    and n: "length olds = n" "n \<le> length ys"
    and ok: "list_all (\<lambda>y. \<not> copy_throws T y) ys"
  shows "copy_range T (begin_p r) (ptr_add (begin_p r) n) (Addr a 0) h =
           Done (set_block a (map Some (take n ys) @ dpost) h)"
proof (cases "buffer_m (data_m r)")
  case nullptr
  then have "n = 0"
    using holds_null [OF r nullptr] n by simp
  then show ?thesis
    using n b by (simp add: set_block_same)
next
  case (Addr c i)
  note f = holds_Addr [OF r Addr]
  have ne': "c \<noteq> a"
    using ne Addr f by simp
  have ys: "ys = take n ys @ drop n ys"
    by simp
  have bc: "block_at h c =
      Some ([] @ map Some (take n ys) @ (map Some (drop n ys) @ replicate (Capacity r - length ys) None))"
    using f by (simp flip: map_append)
  have ba: "block_at h a = Some ([] @ map Some olds @ dpost)"
    using b by simp
  have "copy_loop T (Addr c 0) (Addr a 0) (length (take n ys)) h =
          Done (set_block a ([] @ map Some (take n ys) @ dpost) h)"
    using n ok ne' by (intro copy_loop_ok [OF _ bc _ ba]) (auto simp: list_all_iff dest: in_set_takeD)
  then show ?thesis
    using Addr f n by (simp add: copy_range_def begin_p_def GetAddress_def min_absorb2)
qed

text \<open>Constructing the elements from \<open>n\<close> on into raw slots of another block.\<close>

lemma uninitialized_copy_n_holds:
  assumes r: "holds h r ys" and b: "block_at h a = Some (dpre @ mid @ dpost)"
    and ne: "buffer_m (data_m r) \<noteq> Addr a 0"
    and n: "length dpre = n" "n \<le> length ys" "length mid = length ys - n"
    and ok: "list_all (\<lambda>y. \<not> copy_throws T y) ys"
  shows "uninitialized_copy_n T (ptr_add (begin_p r) n) (length ys - n) (Addr a n) h =
           Done (set_block a (dpre @ map Some (drop n ys) @ dpost) h)"
proof (cases "buffer_m (data_m r)")
  case nullptr
  then have "ys = []"
    using holds_null [OF r nullptr] by simp
  then show ?thesis
    using n b by (simp add: set_block_same)
next
  case (Addr c i)
  note f = holds_Addr [OF r Addr]
  have ne': "c \<noteq> a"
    using ne Addr f by simp
  have bc: "block_at h c =
      Some (map Some (take n ys) @ map Some (drop n ys) @ replicate (Capacity r - length ys) None)"
    using f by (simp flip: map_append)
  have "uninit_copy_loop T (Addr c n) (Addr a n) 0 (length (drop n ys)) h =
          Done (set_block a (dpre @ map Some (drop n ys) @ dpost) h)"
    using n ok ne' by (intro uninit_copy_loop_ok [OF _ bc _ b]) (auto simp: list_all_iff dest: in_set_dropD)
  then show ?thesis
    using Addr f n by (simp add: uninitialized_copy_n_def begin_p_def GetAddress_def)
qed


lemma map_take_drop: "map f (take n ys) @ map f (drop n ys) @ zs = map f ys @ zs"
  by (metis append_assoc append_take_drop_id map_append)

lemma holds_set_block_other:
  "holds h r ys \<Longrightarrow> buffer_m (data_m r) \<noteq> Addr a 0 \<Longrightarrow> holds (set_block a b h) r ys"
  by (cases "buffer_m (data_m r)") (auto simp: holds_def)

lemma separate_Addr:
  "separate t r \<Longrightarrow> buffer_m (data_m t) = Addr a i \<Longrightarrow> buffer_m (data_m r) \<noteq> Addr a i"
  by (auto simp: separate_def)

lemma copy_assign_in_place:
  assumes ne: "this \<noteq> rhs" and t: "vecs st this = Some t" and r: "vecs st rhs = Some r"
    and ht: "holds (heap st) t xs" and hr: "holds (heap st) r ys" and sep: "separate t r"
    and fits: "Size r \<le> Capacity t" and ok: "list_all (\<lambda>y. \<not> copy_throws T y) ys"
  shows "\<exists>h'. copy_assign T this rhs st =
                Done (st\<lparr>heap := h', vecs := (vecs st)(this \<mapsto> t\<lparr>size_m := size_m r\<rparr>)\<rparr>) \<and>
              holds h' (t\<lparr>size_m := size_m r\<rparr>) ys \<and> holds h' r ys \<and>
              length (blocks h') = length (blocks (heap st)) \<and> avail h' = avail (heap st)"
proof -
  let ?h = "heap st"
  have sr: "size_m r = length ys" and sx: "size_m t = length xs"
    using ht hr by (simp_all add: holds_def)
  have le: "length ys \<le> Capacity t"
    using fits sr by (simp add: Size_def)
  have cap: "\<not> capacity_m (data_m t) < length ys"
    using le by (simp add: Capacity_def)
  show ?thesis
  proof (cases "buffer_m (data_m t)")
    case nullptr
    note f = holds_null [OF ht nullptr]
    have ys: "ys = []"
      using le f by simp
    have "copy_assign T this rhs st = Done (st\<lparr>heap := ?h, vecs := (vecs st)(this \<mapsto> t\<lparr>size_m := size_m r\<rparr>)\<rparr>)"
      using ne t r f sr sx ys cap nullptr
      by (simp add: copy_assign_def begin_p_def GetAddress_def)
    moreover have "holds ?h (t\<lparr>size_m := size_m r\<rparr>) ys"
      using sr ys f nullptr by (simp add: holds_def Capacity_def)
    ultimately show ?thesis
      using hr by blast
  next
    case (Addr a i)
    note f = holds_Addr [OF ht Addr]
    have i: "i = 0"
      using f by simp
    have ra: "buffer_m (data_m r) \<noteq> Addr a 0"
      using separate_Addr [OF sep Addr] i by simp
    let ?rest = "replicate (Capacity t - length xs) None :: 'a option list"
    let ?new = "map Some ys @ replicate (Capacity t - length ys) None"
    let ?h' = "set_block a ?new ?h"
    have res: "holds ?h' (t\<lparr>size_m := size_m r\<rparr>) ys"
      using f Addr le sr by (simp add: holds_def Capacity_def)
    have res_r: "holds ?h' r ys"
      using hr ra by (rule holds_set_block_other)
    have "copy_assign T this rhs st =
            Done (st\<lparr>heap := ?h', vecs := (vecs st)(this \<mapsto> t\<lparr>size_m := size_m r\<rparr>)\<rparr>)"
    proof (cases "length ys < length xs")
      case True
      have b: "block_at ?h a = Some (map Some (take (length ys) xs) @ (map Some (drop (length ys) xs) @ ?rest))"
        using f by (simp flip: map_append)
      let ?h1 = "set_block a (map Some (take (length ys) ys) @ (map Some (drop (length ys) xs) @ ?rest)) ?h"
      have c: "copy_range T (begin_p r) (ptr_add (begin_p r) (length ys)) (Addr a 0) ?h = Done ?h1"
        using True ok by (intro copy_range_holds [OF hr b ra]) auto
      have b1: "block_at ?h1 a = Some (map Some ys @ map Some (drop (length ys) xs) @ ?rest)"
        using f by simp
      have "destroy_n (Addr a (length ys)) (length (drop (length ys) xs)) ?h1 =
              Some (set_block a (map Some ys @ replicate (length (drop (length ys) xs)) None @ ?rest) ?h1)"
        by (intro destroy_n_range [OF b1]) simp
      moreover have "replicate (length xs - length ys) None @ ?rest =
          (replicate (Capacity t - length ys) None :: 'a option list)"
        using True f by (simp flip: replicate_add)
      ultimately have d: "destroy_n (Addr a (length ys)) (length xs - length ys) ?h1 = Some ?h'"
        by simp
      show ?thesis
        using ne t r sr sx cap True c d Addr i
        by (simp add: copy_assign_def begin_p_def GetAddress_def)
    next
      case False
      define k where "k = Capacity t - length ys"
      have k: "Capacity t - length xs = (length ys - length xs) + k"
        "Capacity t - length ys = k"
        using False le by (simp_all add: k_def)
      let ?mid = "replicate (length ys - length xs) None :: 'a option list"
      let ?post = "replicate k None :: 'a option list"
      have b: "block_at ?h a = Some (map Some xs @ (?mid @ ?post))"
        using f k by (simp add: replicate_add)
      let ?h1 = "set_block a (map Some (take (length xs) ys) @ (?mid @ ?post)) ?h"
      have c: "copy_range T (begin_p r) (ptr_add (begin_p r) (length xs)) (Addr a 0) ?h = Done ?h1"
        using False ok by (intro copy_range_holds [OF hr b ra]) auto
      have hr1: "holds ?h1 r ys"
        using hr ra by (rule holds_set_block_other)
      have b1: "block_at ?h1 a = Some (map Some (take (length xs) ys) @ ?mid @ ?post)"
        using f by simp
      have "uninitialized_copy_n T (ptr_add (begin_p r) (length xs)) (length ys - length xs)
              (Addr a (length xs)) ?h1 =
            Done (set_block a (map Some (take (length xs) ys) @ map Some (drop (length xs) ys) @ ?post) ?h1)"
        using False ok by (intro uninitialized_copy_n_holds [OF hr1 b1 ra]) auto
      then have u: "uninitialized_copy_n T (ptr_add (begin_p r) (length xs)) (length ys - length xs)
              (Addr a (length xs)) ?h1 = Done ?h'"
        using k by (simp add: map_take_drop)
      show ?thesis
        using ne t r sr sx cap False c u Addr i
        by (simp add: copy_assign_def begin_p_def GetAddress_def)
    qed
    then show ?thesis
      using res res_r by (intro exI [of _ ?h']) simp
  qed
qed


subsection \<open>Copy construction\<close>

lemma state_heap_same [simp]: "st\<lparr>heap := heap st\<rparr> = st"
  by simp

lemma holds_nonempty: "holds h r ys \<Longrightarrow> ys \<noteq> [] \<Longrightarrow> 0 < Capacity r"
  by (cases ys) (auto simp: holds_def)

lemma Vector_copy_ok:
  assumes r: "holds h r ys" and ys: "ys \<noteq> []" and room: "length ys \<le> avail h"
    and ok: "list_all (\<lambda>y. \<not> copy_throws T y) ys"
  shows "Vector_copy T r h =
           Done (\<lparr>data_m = \<lparr>buffer_m = Addr (length (blocks h)) 0, capacity_m = length ys\<rparr>,
                   size_m = length ys\<rparr>,
                 set_block (length (blocks h)) (map Some ys) (alloc_block (length ys) h))"
proof -
  let ?L = "length (blocks h)"
  let ?h1 = "alloc_block (length ys) h"
  have sr: "size_m r = length ys"
    using r by (simp add: holds_def)
  have "0 < Capacity r"
    using r ys by (rule holds_nonempty)
  then obtain c where c: "buffer_m (data_m r) = Addr c 0"
    using holds_capacity_pos [OF r] by auto
  note f = holds_Addr [OF r c]
  have ne: "c \<noteq> ?L"
    using f block_at_less by blast
  have new: "RawMemory_new (length ys) h =
      Done (\<lparr>buffer_m = Addr ?L 0, capacity_m = length ys\<rparr>, ?h1)"
    using ys room by (intro RawMemory_new_ok) auto
  have bc: "block_at ?h1 c = Some ([] @ map Some ys @ replicate (Capacity r - length ys) None)"
    using f by simp
  have bL: "block_at ?h1 ?L = Some ([] @ replicate (length ys) None @ [])"
    by simp
  have "uninit_copy_loop T (Addr c 0) (Addr ?L 0) 0 (length ys) ?h1 =
          Done (set_block ?L ([] @ map Some ys @ []) ?h1)"
    using ne ok by (intro uninit_copy_loop_ok [OF _ bc _ bL]) auto
  then show ?thesis
    using new sr c
    by (simp add: Vector_copy_def uninitialized_copy_n_def begin_p_def GetAddress_def)
qed

lemma Vector_copy_bad_alloc:
  assumes r: "holds h r ys" and room: "avail h < length ys"
  shows "Vector_copy T r h = Throw bad_alloc h"
proof -
  have "RawMemory_new (length ys) h = Throw bad_alloc h"
    using room by (intro RawMemory_new_fails) auto
  then show ?thesis
    using r by (simp add: Vector_copy_def holds_def)
qed

lemma first_thrower:
  "\<not> list_all P ys \<Longrightarrow> \<exists>ys1 z zs. ys = ys1 @ z # zs \<and> list_all P ys1 \<and> \<not> P z"
proof -
  assume "\<not> list_all P ys"
  then have "\<exists>x \<in> set ys. \<not> P x"
    by (simp add: list_all_iff)
  from split_list_first_prop [OF this] show ?thesis
    by (auto simp: list_all_iff)
qed

lemma Vector_copy_throws:
  assumes r: "holds h r ys" and room: "length ys \<le> avail h"
    and bad: "\<not> list_all (\<lambda>y. \<not> copy_throws T y) ys"
  shows "Vector_copy T r h =
           Throw element_failure (h\<lparr>blocks := blocks h @ [None]\<rparr>)"
proof -
  let ?L = "length (blocks h)"
  let ?h1 = "alloc_block (length ys) h"
  obtain ys1 z zs where split: "ys = ys1 @ z # zs"
    and ok: "list_all (\<lambda>y. \<not> copy_throws T y) ys1" and z: "copy_throws T z"
    using first_thrower [OF bad] by auto
  have ys: "ys \<noteq> []"
    using split by simp
  have sr: "size_m r = length ys"
    using r by (simp add: holds_def)
  have "0 < Capacity r"
    using r ys by (rule holds_nonempty)
  then obtain c where c: "buffer_m (data_m r) = Addr c 0"
    using holds_capacity_pos [OF r] by auto
  note f = holds_Addr [OF r c]
  have ne: "c \<noteq> ?L"
    using f block_at_less by blast
  have new: "RawMemory_new (length ys) h =
      Done (\<lparr>buffer_m = Addr ?L 0, capacity_m = length ys\<rparr>, ?h1)"
    using ys room by (intro RawMemory_new_ok) auto
  let ?post = "replicate (Suc (length zs)) None :: 'a option list"
  have bc: "block_at ?h1 c =
      Some ([] @ map Some (ys1 @ z # zs) @ replicate (Capacity r - length ys) None)"
    using f split by simp
  have bL: "block_at ?h1 ?L = Some ([] @ map Some [] @ replicate (length ys1) None @ ?post)"
    using split by (simp add: replicate_add replicate_app_Cons_same)
  have "uninit_copy_loop T (Addr c 0) (Addr ?L 0) 0 (length ys1 + Suc (length zs)) ?h1 =
          Throw element_failure (set_block ?L ([] @ replicate (0 + length ys1) None @ ?post) ?h1)"
    using ne ok z by (intro uninit_copy_loop_throws [OF _ bc _ bL]) auto
  moreover have "set_block ?L ([] @ replicate (0 + length ys1) None @ ?post) ?h1 = ?h1"
    using split by (intro set_block_same) (simp add: replicate_add replicate_app_Cons_same)
  ultimately have u: "uninit_copy_loop T (Addr c 0) (Addr ?L 0) 0 (length ys) ?h1 =
      Throw element_failure ?h1"
    using split by simp
  have "Deallocate (Addr ?L 0) ?h1 =
          Some (free_block ?L (length (replicate (length ys) (None :: 'a option))) ?h1)"
    by (intro Deallocate_ok) simp
  moreover have "free_block ?L (length ys) ?h1 = h\<lparr>blocks := blocks h @ [None]\<rparr>"
    using room by (simp add: free_block_def alloc_block_def)
  ultimately show ?thesis
    using new sr c u
    by (simp add: Vector_copy_def uninitialized_copy_n_def begin_p_def GetAddress_def
        unwind_data_def RawMemory_dtor_def)
qed

lemma block_at_append_None [simp]:
  "block_at (h\<lparr>blocks := blocks h @ [None]\<rparr>) c = block_at h c"
  by (auto simp: block_at_def nth_append)


lemma holds_frame:
  "holds h r ys \<Longrightarrow> (\<And>c. buffer_m (data_m r) = Addr c 0 \<Longrightarrow> block_at h' c = block_at h c) \<Longrightarrow>
   holds h' r ys"
  by (cases "buffer_m (data_m r)") (auto simp: holds_def)

lemma Vector_dtor_ok:
  assumes t: "holds h t xs"
  shows "\<exists>h'. Vector_dtor t h = Some h' \<and>
           (\<forall>c. buffer_m (data_m t) \<noteq> Addr c 0 \<longrightarrow> block_at h' c = block_at h c)"
proof (cases "buffer_m (data_m t)")
  case nullptr
  then show ?thesis
    using holds_null [OF t nullptr]
    by (simp add: Vector_dtor_def begin_p_def GetAddress_def RawMemory_dtor_def Deallocate_def)
next
  case (Addr a i)
  note f = holds_Addr [OF t Addr]
  let ?post = "replicate (Capacity t - length xs) None :: 'a option list"
  let ?h1 = "set_block a ([] @ replicate (length xs) None @ ?post) h"
  have b: "block_at h a = Some ([] @ map Some xs @ ?post)"
    using f by simp
  have d: "destroy_n (Addr a 0) (length xs) h = Some ?h1"
    by (intro destroy_n_range [OF b]) simp
  have "block_at ?h1 a = Some (replicate (length xs) None @ ?post)"
    using b by simp
  from Deallocate_ok [OF this]
  have "Vector_dtor t h = Some (free_block a (length (replicate (length xs) (None :: 'a option) @ ?post)) ?h1)"
    using d f Addr
    by (simp add: Vector_dtor_def begin_p_def GetAddress_def RawMemory_dtor_def)
  then show ?thesis
    using Addr f by auto
qed

lemma copy_assign_grows:
  assumes ne: "this \<noteq> rhs" and t: "vecs st this = Some t" and r: "vecs st rhs = Some r"
    and ht: "holds (heap st) t xs" and hr: "holds (heap st) r ys" and sep: "separate t r"
    and big: "Capacity t < Size r" and room: "length ys \<le> avail (heap st)"
    and ok: "list_all (\<lambda>y. \<not> copy_throws T y) ys"
  shows "\<exists>h' t'. copy_assign T this rhs st =
                Done (st\<lparr>heap := h', vecs := (vecs st)(this \<mapsto> t')\<rparr>) \<and>
              holds h' t' ys \<and> Capacity t' = length ys \<and> holds h' r ys"
proof -
  let ?h = "heap st"
  let ?L = "length (blocks ?h)"
  let ?h1 = "set_block ?L (map Some ys) (alloc_block (length ys) ?h)"
  let ?t' = "\<lparr>data_m = \<lparr>buffer_m = Addr ?L 0, capacity_m = length ys\<rparr>, size_m = length ys\<rparr>"
  have sr: "size_m r = length ys"
    using hr by (simp add: holds_def)
  have gt: "capacity_m (data_m t) < length ys"
    using big sr by (simp add: Size_def Capacity_def)
  then have ys: "ys \<noteq> []"
    by auto
  have copy: "Vector_copy T r ?h = Done (?t', ?h1)"
    using hr ys room ok by (rule Vector_copy_ok)
  have old: "\<And>c b. block_at ?h c = Some b \<Longrightarrow> block_at ?h1 c = Some b"
  proof -
    fix c b assume b: "block_at ?h c = Some b"
    then have "c \<noteq> ?L"
      using block_at_less by blast
    then show "block_at ?h1 c = Some b"
      using b by simp
  qed
  have ht1: "holds ?h1 t xs"
    using ht by (rule holds_frame) (use ht old in \<open>auto simp: holds_def\<close>)
  have hr1: "holds ?h1 r ys"
    using hr by (rule holds_frame) (use hr old in \<open>auto simp: holds_def\<close>)
  obtain h2 where dtor: "Vector_dtor t ?h1 = Some h2"
    and frame: "\<forall>c. buffer_m (data_m t) \<noteq> Addr c 0 \<longrightarrow> block_at h2 c = block_at ?h1 c"
    using Vector_dtor_ok [OF ht1] by blast
  have tL: "buffer_m (data_m t) \<noteq> Addr ?L 0"
    using ht block_at_less by (cases "buffer_m (data_m t)") (fastforce simp: holds_def)+
  have "block_at h2 ?L = Some (map Some ys)"
    using frame tL by simp
  then have res: "holds h2 ?t' ys"
    using ys by (simp add: holds_def Capacity_def)
  have res_r: "holds h2 r ys"
    using hr1
  proof (rule holds_frame)
    fix c assume c: "buffer_m (data_m r) = Addr c 0"
    have "buffer_m (data_m t) \<noteq> Addr c 0"
      using sep c by (auto simp: separate_def)
    then show "block_at h2 c = block_at ?h1 c"
      using frame by simp
  qed
  have "copy_assign T this rhs st = Done (st\<lparr>heap := h2, vecs := (vecs st)(this \<mapsto> ?t')\<rparr>)"
    using ne t r sr gt copy dtor by (simp add: copy_assign_def Vector_Swap_eq)
  then show ?thesis
    using res res_r by (intro exI [of _ h2] exI [of _ ?t']) (simp add: Capacity_def)
qed

text \<open>The same call, with the memory it leaves written out.\<close>

lemma Vector_dtor_exact:
  assumes t: "holds h t xs"
  shows "\<exists>h'. Vector_dtor t h = Some h' \<and>
           blocks h' = (case buffer_m (data_m t) of nullptr \<Rightarrow> blocks h
                        | Addr a i \<Rightarrow> (blocks h)[a := None]) \<and>
           avail h' = avail h + Capacity t"
proof (cases "buffer_m (data_m t)")
  case nullptr
  then show ?thesis
    using holds_null [OF t nullptr]
    by (simp add: Vector_dtor_def begin_p_def GetAddress_def RawMemory_dtor_def Deallocate_def)
next
  case (Addr a i)
  note f = holds_Addr [OF t Addr]
  let ?post = "replicate (Capacity t - length xs) None :: 'a option list"
  let ?h1 = "set_block a ([] @ replicate (length xs) None @ ?post) h"
  have b: "block_at h a = Some ([] @ map Some xs @ ?post)"
    using f by simp
  have d: "destroy_n (Addr a 0) (length xs) h = Some ?h1"
    by (intro destroy_n_range [OF b]) simp
  have "block_at ?h1 a = Some (replicate (length xs) None @ ?post)"
    using b by simp
  from Deallocate_ok [OF this]
  have "Vector_dtor t h = Some (free_block a (length (replicate (length xs) (None :: 'a option) @ ?post)) ?h1)"
    using d f Addr
    by (simp add: Vector_dtor_def begin_p_def GetAddress_def RawMemory_dtor_def)
  then show ?thesis
    using Addr f by (simp add: free_block_def set_block_def)
qed

lemma copy_assign_grows_exact:
  assumes ne: "this \<noteq> rhs" and t: "vecs st this = Some t" and r: "vecs st rhs = Some r"
    and ht: "holds (heap st) t xs" and hr: "holds (heap st) r ys" and sep: "separate t r"
    and big: "Capacity t < Size r" and room: "length ys \<le> avail (heap st)"
    and ok: "list_all (\<lambda>y. \<not> copy_throws T y) ys"
  shows "\<exists>h'. copy_assign T this rhs st =
                Done (st\<lparr>heap := h', vecs := (vecs st)(this \<mapsto>
                  \<lparr>data_m = \<lparr>buffer_m = Addr (length (blocks (heap st))) 0,
                              capacity_m = length ys\<rparr>, size_m = length ys\<rparr>)\<rparr>) \<and>
              blocks h' =
                (case buffer_m (data_m t) of nullptr \<Rightarrow> blocks (heap st)
                 | Addr a i \<Rightarrow> (blocks (heap st))[a := None]) @ [Some (map Some ys)] \<and>
              avail h' = avail (heap st) + Capacity t - length ys"
proof -
  let ?h = "heap st"
  let ?L = "length (blocks ?h)"
  let ?h1 = "set_block ?L (map Some ys) (alloc_block (length ys) ?h)"
  let ?t' = "\<lparr>data_m = \<lparr>buffer_m = Addr ?L 0, capacity_m = length ys\<rparr>, size_m = length ys\<rparr>"
  have sr: "size_m r = length ys"
    using hr by (simp add: holds_def)
  have gt: "capacity_m (data_m t) < length ys"
    using big sr by (simp add: Size_def Capacity_def)
  then have ys: "ys \<noteq> []"
    by auto
  have copy: "Vector_copy T r ?h = Done (?t', ?h1)"
    using hr ys room ok by (rule Vector_copy_ok)
  have b1: "blocks ?h1 = blocks ?h @ [Some (map Some ys)]"
    by (simp add: set_block_def alloc_block_def)
  have a1: "avail ?h1 = avail ?h - length ys"
    by (simp add: set_block_def alloc_block_def)
  have old: "\<And>c b. block_at ?h c = Some b \<Longrightarrow> block_at ?h1 c = Some b"
  proof -
    fix c b assume b: "block_at ?h c = Some b"
    then have "c \<noteq> ?L"
      using block_at_less by blast
    then show "block_at ?h1 c = Some b"
      using b by simp
  qed
  have ht1: "holds ?h1 t xs"
    using ht by (rule holds_frame) (use ht old in \<open>auto simp: holds_def\<close>)
  obtain h2 where dtor: "Vector_dtor t ?h1 = Some h2"
    and b2: "blocks h2 = (case buffer_m (data_m t) of nullptr \<Rightarrow> blocks ?h1
                          | Addr a i \<Rightarrow> (blocks ?h1)[a := None])"
    and a2: "avail h2 = avail ?h1 + Capacity t"
    using Vector_dtor_exact [OF ht1] by blast
  have "blocks h2 = (case buffer_m (data_m t) of nullptr \<Rightarrow> blocks ?h
                     | Addr a i \<Rightarrow> (blocks ?h)[a := None]) @ [Some (map Some ys)]"
  proof (cases "buffer_m (data_m t)")
    case nullptr
    then show ?thesis
      using b2 b1 by simp
  next
    case (Addr a i)
    have "a < ?L"
      using holds_Addr [OF ht Addr] block_at_less by blast
    then show ?thesis
      using b2 b1 Addr by (simp add: list_update_append1)
  qed
  moreover have "avail h2 = avail ?h + Capacity t - length ys"
    using a1 a2 room by simp
  moreover have "copy_assign T this rhs st =
      Done (st\<lparr>heap := h2, vecs := (vecs st)(this \<mapsto> ?t')\<rparr>)"
    using ne t r sr gt copy dtor by (simp add: copy_assign_def Vector_Swap_eq)
  ultimately show ?thesis
    by blast
qed

lemma copy_assign_bad_alloc:
  assumes ne: "this \<noteq> rhs" and t: "vecs st this = Some t" and r: "vecs st rhs = Some r"
    and hr: "holds (heap st) r ys"
    and big: "Capacity t < Size r" and room: "avail (heap st) < length ys"
  shows "copy_assign T this rhs st = Throw bad_alloc st"
proof -
  have "capacity_m (data_m t) < size_m r"
    using big by (simp add: Size_def Capacity_def)
  then show ?thesis
    using ne t r Vector_copy_bad_alloc [OF hr room, of T] by (simp add: copy_assign_def)
qed

lemma copy_assign_throws:
  assumes ne: "this \<noteq> rhs" and t: "vecs st this = Some t" and r: "vecs st rhs = Some r"
    and hr: "holds (heap st) r ys"
    and big: "Capacity t < Size r" and room: "length ys \<le> avail (heap st)"
    and bad: "\<not> list_all (\<lambda>y. \<not> copy_throws T y) ys"
  shows "copy_assign T this rhs st =
           Throw element_failure (st\<lparr>heap := (heap st)\<lparr>blocks := blocks (heap st) @ [None]\<rparr>\<rparr>)"
proof -
  have "capacity_m (data_m t) < size_m r"
    using big by (simp add: Size_def Capacity_def)
  then show ?thesis
    using ne t r Vector_copy_throws [OF hr room bad] by (simp add: copy_assign_def)
qed

subsection \<open>Insertion and erasure\<close>





lemma length_blocks_alloc [simp]: "length (blocks (alloc_block n h)) = Suc (length (blocks h))"
  by (simp add: alloc_block_def)









section \<open>The claims\<close>



text \<open>
  C1 (the code differs). \<open>Resize(5)\<close> on the vector \<open>[1, 2, 3]\<close> value-constructs
  the two new elements at \<open>begin()\<close>, over the elements 1 and 2, and leaves the slots
  3 and 4 raw: the block is \<open>[0, 0, 3, raw, raw]\<close> with size 5.
\<close>

theorem Resize_constructs_at_front:
  "and_then one_two_three (Resize int_type 5) =
     Done (\<lparr>blocks = [None, None, None, Some [Some 0, Some 0, Some 3, None, None]],
             avail = 95\<rparr>,
           \<lparr>data_m = \<lparr>buffer_m = Addr 3 0, capacity_m = 5\<rparr>, size_m = 5\<rparr>)"
  by code_simp

text \<open>
  C8 (the code differs). A vector constructed with one element and resized to three
  has size 3 and capacity 3, but its slot 2, below the size, holds no live object.
\<close>

theorem Resize_breaks_invariant:
  "(case and_then (new_sized int_type 0 1 (start 100)) (on_vector 0 (Resize int_type 3)) of
      Done st \<Rightarrow>
        (case vecs st 0 of
           Some v \<Rightarrow> Size v = 3 \<and> Capacity v = 3 \<and> at_index (heap st) v 2 = None \<and>
                     elements (heap st) v = None \<and>
                     block_at (heap st) 1 = Some [Some 0, Some 0, None]
         | None \<Rightarrow> False)
    | Throw e s \<Rightarrow> False
    | UB \<Rightarrow> False)"
  by code_simp

text \<open>
  C2 (the code differs). Move assignment of the vector \<open>[7]\<close> (object 1) to the vector
  \<open>[1, 2]\<close> (object 0): afterwards object 0 owns the block of \<open>[7]\<close>, object 1 owns
  nothing, and the block that object 0 had is still allocated with its two elements
  alive; no object refers to it any more.
\<close>

theorem move_assign_leaks:
  "(case and_then two_vectors (move_assign 0 1) of
      Done st \<Rightarrow>
        vecs st 0 = Some \<lparr>data_m = \<lparr>buffer_m = Addr 2 0, capacity_m = 1\<rparr>, size_m = 1\<rparr> \<and>
        vecs st 1 = Some \<lparr>data_m = \<lparr>buffer_m = nullptr, capacity_m = 0\<rparr>, size_m = 0\<rparr> \<and>
        heap st = \<lparr>blocks = [None, Some [Some 1, Some 2], Some [Some 7]], avail = 97\<rparr>
    | Throw e s \<Rightarrow> False
    | UB \<Rightarrow> False)"
  by code_simp

text \<open>
  C9. Assigning a vector to itself, by copy or by move, returns and changes nothing:
  neither the fields of any vector nor the memory.
\<close>

theorem self_assignment_unchanged:
  "copy_assign T a a st = Done st \<and> move_assign a a st = Done st"
  by (simp add: copy_assign_def move_assign_def)

text \<open>
  C10. \<open>a.Swap(b)\<close> on two vector objects always returns; afterwards \<open>a\<close> has the
  fields \<open>b\<close> had (block, capacity and size, hence its elements) and \<open>b\<close> has those
  of \<open>a\<close>; the memory is the same, so no element was constructed, copied or destroyed,
  and no other vector changes.
\<close>

theorem Swap_exchanges:
  assumes "vecs st a = Some va" and "vecs st b = Some vb"
  shows "\<exists>st'. Swap a b st = Done st' \<and> heap st' = heap st \<and>
           vecs st' a = Some vb \<and> vecs st' b = Some va \<and>
           Size (the (vecs st' a)) = Size vb \<and> Capacity (the (vecs st' a)) = Capacity vb \<and>
           elements (heap st') (the (vecs st' a)) = elements (heap st) vb \<and>
           Size (the (vecs st' b)) = Size va \<and> Capacity (the (vecs st' b)) = Capacity va \<and>
           elements (heap st') (the (vecs st' b)) = elements (heap st) va \<and>
           (\<forall>c. c \<noteq> a \<and> c \<noteq> b \<longrightarrow> vecs st' c = vecs st c)"
  using assms by (auto simp: Swap_def Vector_Swap_eq)

theorem Swap_exchanges_witness:
  "\<exists>st'. Swap 0 1 two_vectors_state = Done st' \<and> heap st' = heap two_vectors_state \<and>
     vecs st' 0 = Some \<lparr>data_m = \<lparr>buffer_m = Addr 2 0, capacity_m = 1\<rparr>, size_m = 1\<rparr> \<and>
     vecs st' 1 = Some \<lparr>data_m = \<lparr>buffer_m = Addr 1 0, capacity_m = 2\<rparr>, size_m = 2\<rparr> \<and>
     elements (heap st') (the (vecs st' 0)) = Some [7] \<and>
     elements (heap st') (the (vecs st' 1)) = Some [1, 2]"
  using Swap_exchanges [OF two_vectors_holds(1) two_vectors_holds(2)]
    holds_elements [OF two_vectors_holds(3)] holds_elements [OF two_vectors_holds(4)]
  by auto

text \<open>
  C6. Move construction of a new object \<open>dst\<close> from \<open>src\<close>, and move assignment
  to another object \<open>dst\<close>, always return and leave the memory as it is (no element
  is touched); afterwards \<open>dst\<close> has the fields \<open>src\<close> had and so holds its former
  elements, and \<open>src\<close> has size 0, satisfies the invariant as an empty vector and
  accepts \<open>PushBack\<close> (which returns when the copy does not throw and one slot can be
  allocated). Running time is not expressed in the model.
\<close>

theorem move_transfers:
  assumes "vecs st src = Some v" and "holds (heap st) v xs" and "dst \<noteq> src"
  shows "(\<exists>st' e. new_move dst src st = Done st' \<and> heap st' = heap st \<and>
            vecs st' dst = Some v \<and> elements (heap st') v = Some xs \<and>
            vecs st' src = Some e \<and> Size e = 0 \<and> holds (heap st') e [] \<and>
            (\<forall>T x. \<not> copy_throws T x \<and> 1 \<le> avail (heap st') \<longrightarrow>
               (\<exists>h' e'. PushBack T x (heap st', e) = Done (h', e') \<and> holds h' e' [x]))) \<and>
         (vecs st dst \<noteq> None \<longrightarrow>
            (\<exists>st' e. move_assign dst src st = Done st' \<and> heap st' = heap st \<and>
               vecs st' dst = Some v \<and> elements (heap st') v = Some xs \<and>
               vecs st' src = Some e \<and> Size e = 0 \<and> holds (heap st') e [] \<and>
               (\<forall>T x. \<not> copy_throws T x \<and> 1 \<le> avail (heap st') \<longrightarrow>
                  (\<exists>h' e'. PushBack T x (heap st', e) = Done (h', e') \<and> holds h' e' [x]))))"
proof (intro conjI impI)
  let ?e = "v\<lparr>data_m := (data_m v)\<lparr>buffer_m := nullptr, capacity_m := 0\<rparr>, size_m := 0\<rparr>"
  let ?st = "st\<lparr>vecs := (vecs st)(src \<mapsto> ?e, dst \<mapsto> v)\<rparr>"
  have e: "holds (heap st) ?e []"
    by (rule holds_moved_from)
  have push: "\<forall>T x. \<not> copy_throws T x \<and> 1 \<le> avail (heap st) \<longrightarrow>
      (\<exists>h' e'. PushBack T x (heap st, ?e) = Done (h', e') \<and> holds h' e' [x])"
    using PushBack_after_move [OF e] by blast
  have "new_move dst src st = Done ?st"
    using assms(1) by (simp add: new_move_def Vector_move_eq)
  then show "\<exists>st' e. new_move dst src st = Done st' \<and> heap st' = heap st \<and>
            vecs st' dst = Some v \<and> elements (heap st') v = Some xs \<and>
            vecs st' src = Some e \<and> Size e = 0 \<and> holds (heap st') e [] \<and>
            (\<forall>T x. \<not> copy_throws T x \<and> 1 \<le> avail (heap st') \<longrightarrow>
               (\<exists>h' e'. PushBack T x (heap st', e) = Done (h', e') \<and> holds h' e' [x]))"
    using assms(3) e push holds_elements [OF assms(2)]
    by (intro exI [of _ ?st] exI [of _ ?e]) (simp add: Size_def)
next
  assume "vecs st dst \<noteq> None"
  then obtain t where t: "vecs st dst = Some t"
    by auto
  let ?e = "v\<lparr>data_m := (data_m v)\<lparr>buffer_m := nullptr, capacity_m := 0\<rparr>, size_m := 0\<rparr>"
  let ?st = "st\<lparr>vecs := (vecs st)(dst \<mapsto> v, src \<mapsto> ?e)\<rparr>"
  have e: "holds (heap st) ?e []"
    by (rule holds_moved_from)
  have push: "\<forall>T x. \<not> copy_throws T x \<and> 1 \<le> avail (heap st) \<longrightarrow>
      (\<exists>h' e'. PushBack T x (heap st, ?e) = Done (h', e') \<and> holds h' e' [x])"
    using PushBack_after_move [OF e] by blast
  have "move_assign dst src st = Done ?st"
    using assms(1,3) t by (simp add: move_assign_def RawMemory_move_assign_def Vector_overwritten)
  then show "\<exists>st' e. move_assign dst src st = Done st' \<and> heap st' = heap st \<and>
               vecs st' dst = Some v \<and> elements (heap st') v = Some xs \<and>
               vecs st' src = Some e \<and> Size e = 0 \<and> holds (heap st') e [] \<and>
               (\<forall>T x. \<not> copy_throws T x \<and> 1 \<le> avail (heap st') \<longrightarrow>
                  (\<exists>h' e'. PushBack T x (heap st', e) = Done (h', e') \<and> holds h' e' [x]))"
    using assms(3) e push holds_elements [OF assms(2)]
    by (intro exI [of _ ?st] exI [of _ ?e]) (simp add: Size_def)
qed

theorem move_transfers_witness:
  "\<exists>st' e. move_assign 0 1 two_vectors_state = Done st' \<and> heap st' = heap two_vectors_state \<and>
     elements (heap st') (the (vecs st' 0)) = Some [7] \<and>
     vecs st' 1 = Some e \<and> Size e = 0 \<and>
     (\<exists>h' e'. PushBack int_type 5 (heap st', e) = Done (h', e') \<and> holds h' e' [5])"
proof -
  have ne: "(0::nat) \<noteq> 1" and d: "vecs two_vectors_state 0 \<noteq> None"
    using two_vectors_holds(1) by simp_all
  have c: "\<not> copy_throws int_type 5 \<and> 1 \<le> avail (heap two_vectors_state)"
    by (simp add: int_type_def two_vectors_state_def)
  from move_transfers [OF two_vectors_holds(2) two_vectors_holds(4) ne] d
  obtain st' e where "move_assign 0 1 two_vectors_state = Done st'"
    "heap st' = heap two_vectors_state"
    "vecs st' 0 = Some \<lparr>data_m = \<lparr>buffer_m = Addr 2 0, capacity_m = 1\<rparr>, size_m = 1\<rparr>"
    "elements (heap st') \<lparr>data_m = \<lparr>buffer_m = Addr 2 0, capacity_m = 1\<rparr>, size_m = 1\<rparr> = Some [7]"
    "vecs st' 1 = Some e" "Size e = 0"
    "\<forall>T x. \<not> copy_throws T x \<and> 1 \<le> avail (heap st') \<longrightarrow>
       (\<exists>h' e'. PushBack T x (heap st', e) = Done (h', e') \<and> holds h' e' [x])"
    by blast
  then show ?thesis
    using c by (intro exI [of _ st'] exI [of _ e]) auto
qed

text \<open>
  C4. Copy assignment from \<open>rhs\<close> holding \<open>ys\<close>, with more elements than the
  destination has capacity, first copies \<open>rhs\<close> into a temporary. When the allocator
  cannot supply the block the call throws \<open>bad_alloc\<close> and the whole state is as
  before. When the copy of an element throws, the call throws that failure, no vector
  object has changed, every block holds what it held (the temporary block is released
  again) and the allocator has as many slots as before: the destination still holds
  \<open>xs\<close>. Otherwise the call returns and only the destination object has changed: it
  owns a block allocated by this call, at an address no block had before, of exactly
  \<open>length ys\<close> slots holding the copies \<open>ys\<close>; the block it owned before is
  released, every other block (that of \<open>rhs\<close> among
  them) is as it was, and the allocator's free slots have changed by the two blocks. In
  all three cases \<open>rhs\<close> is unchanged, and after the call it shares no block with the
  destination.
\<close>

theorem copy_assign_strong_guarantee:
  assumes "this \<noteq> rhs" and "vecs st this = Some t" and "vecs st rhs = Some r"
    and "holds (heap st) t xs" and "holds (heap st) r ys" and "separate t r"
    and "Capacity t < Size r"
  shows "(avail (heap st) < length ys \<longrightarrow> copy_assign T this rhs st = Throw bad_alloc st) \<and>
         (length ys \<le> avail (heap st) \<and> \<not> list_all (\<lambda>y. \<not> copy_throws T y) ys \<longrightarrow>
            (\<exists>st'. copy_assign T this rhs st = Throw element_failure st' \<and>
               vecs st' = vecs st \<and> avail (heap st') = avail (heap st) \<and>
               (\<forall>c. block_at (heap st') c = block_at (heap st) c) \<and>
               holds (heap st') t xs \<and> holds (heap st') r ys)) \<and>
         (length ys \<le> avail (heap st) \<and> list_all (\<lambda>y. \<not> copy_throws T y) ys \<longrightarrow>
            (\<exists>st' t'. copy_assign T this rhs st = Done st' \<and> vecs st' this = Some t' \<and>
               Size t' = Size r \<and> elements (heap st') t' = Some ys \<and>
               holds (heap st') t' ys \<and> vecs st' rhs = Some r \<and> holds (heap st') r ys \<and>
               vecs st' = (vecs st)(this \<mapsto> t') \<and>
               t' = \<lparr>data_m = \<lparr>buffer_m = Addr (length (blocks (heap st))) 0,
                                capacity_m = length ys\<rparr>, size_m = length ys\<rparr> \<and>
               blocks (heap st') =
                 (case buffer_m (data_m t) of nullptr \<Rightarrow> blocks (heap st)
                  | Addr a i \<Rightarrow> (blocks (heap st))[a := None]) @ [Some (map Some ys)] \<and>
               avail (heap st') = avail (heap st) + Capacity t - length ys \<and>
               separate t' r \<and> separate r t'))"
proof (intro conjI impI)
  assume "avail (heap st) < length ys"
  then show "copy_assign T this rhs st = Throw bad_alloc st"
    using assms by (intro copy_assign_bad_alloc) auto
next
  assume a: "length ys \<le> avail (heap st) \<and> \<not> list_all (\<lambda>y. \<not> copy_throws T y) ys"
  let ?st = "st\<lparr>heap := (heap st)\<lparr>blocks := blocks (heap st) @ [None]\<rparr>\<rparr>"
  have "copy_assign T this rhs st = Throw element_failure ?st"
    using assms a by (intro copy_assign_throws) auto
  moreover have "holds (heap ?st) t xs" "holds (heap ?st) r ys"
    using assms(4,5) by (auto intro: holds_frame)
  ultimately show "\<exists>st'. copy_assign T this rhs st = Throw element_failure st' \<and>
               vecs st' = vecs st \<and> avail (heap st') = avail (heap st) \<and>
               (\<forall>c. block_at (heap st') c = block_at (heap st) c) \<and>
               holds (heap st') t xs \<and> holds (heap st') r ys"
    by (intro exI [of _ ?st]) simp
next
  assume a: "length ys \<le> avail (heap st) \<and> list_all (\<lambda>y. \<not> copy_throws T y) ys"
  let ?L = "length (blocks (heap st))"
  let ?t' = "\<lparr>data_m = \<lparr>buffer_m = Addr ?L 0, capacity_m = length ys\<rparr>, size_m = length ys\<rparr>"
  from a obtain h2 where
    c2: "copy_assign T this rhs st = Done (st\<lparr>heap := h2, vecs := (vecs st)(this \<mapsto> ?t')\<rparr>)"
    and b2: "blocks h2 =
      (case buffer_m (data_m t) of nullptr \<Rightarrow> blocks (heap st)
       | Addr a i \<Rightarrow> (blocks (heap st))[a := None]) @ [Some (map Some ys)]"
    and a2: "avail h2 = avail (heap st) + Capacity t - length ys"
    using copy_assign_grows_exact [OF assms, of T] by blast
  from a obtain h' t' where
    c: "copy_assign T this rhs st = Done (st\<lparr>heap := h', vecs := (vecs st)(this \<mapsto> t')\<rparr>)"
    and h: "holds h' t' ys" "holds h' r ys"
    using copy_assign_grows [OF assms, of T] by blast
  have eq: "st\<lparr>heap := h', vecs := (vecs st)(this \<mapsto> t')\<rparr> =
      st\<lparr>heap := h2, vecs := (vecs st)(this \<mapsto> ?t')\<rparr>"
    using c c2 by simp
  have "heap (st\<lparr>heap := h', vecs := (vecs st)(this \<mapsto> t')\<rparr>) =
      heap (st\<lparr>heap := h2, vecs := (vecs st)(this \<mapsto> ?t')\<rparr>)"
    by (simp only: eq)
  then have hh: "h' = h2"
    by simp
  have "vecs (st\<lparr>heap := h', vecs := (vecs st)(this \<mapsto> t')\<rparr>) this =
      vecs (st\<lparr>heap := h2, vecs := (vecs st)(this \<mapsto> ?t')\<rparr>) this"
    by (simp only: eq)
  then have tt: "t' = ?t'"
    by simp
  have hold: "holds h2 ?t' ys" "holds h2 r ys"
    using h hh tt by simp_all
  have ys: "ys \<noteq> []"
    using assms(5,7) by (auto simp: Size_def holds_def)
  have rL: "buffer_m (data_m r) \<noteq> Addr ?L 0"
    using holds_capacity_pos [OF assms(5) holds_nonempty [OF assms(5) ys]]
      holds_Addr [OF assms(5)] block_at_less by fastforce
  have sep: "separate ?t' r" "separate r ?t'"
    using rL by (auto simp: separate_def)
  have sz: "Size ?t' = Size r"
    using assms(5) by (simp add: Size_def holds_def)
  show "\<exists>st' t'. copy_assign T this rhs st = Done st' \<and> vecs st' this = Some t' \<and>
               Size t' = Size r \<and> elements (heap st') t' = Some ys \<and>
               holds (heap st') t' ys \<and> vecs st' rhs = Some r \<and> holds (heap st') r ys \<and>
               vecs st' = (vecs st)(this \<mapsto> t') \<and>
               t' = \<lparr>data_m = \<lparr>buffer_m = Addr (length (blocks (heap st))) 0,
                                capacity_m = length ys\<rparr>, size_m = length ys\<rparr> \<and>
               blocks (heap st') =
                 (case buffer_m (data_m t) of nullptr \<Rightarrow> blocks (heap st)
                  | Addr a i \<Rightarrow> (blocks (heap st))[a := None]) @ [Some (map Some ys)] \<and>
               avail (heap st') = avail (heap st) + Capacity t - length ys \<and>
               separate t' r \<and> separate r t'"
    using c2 b2 a2 hold sep sz assms(1,3) holds_elements [OF hold(1)]
    by (intro exI [of _ "st\<lparr>heap := h2, vecs := (vecs st)(this \<mapsto> ?t')\<rparr>"] exI [of _ ?t'])
      simp
qed

theorem copy_assign_strong_guarantee_witness:
  "(\<exists>st'. copy_assign picky_type 1 0 two_vectors_state = Throw element_failure st' \<and>
      vecs st' = vecs two_vectors_state \<and>
      avail (heap st') = avail (heap two_vectors_state) \<and>
      (\<forall>c. block_at (heap st') c = block_at (heap two_vectors_state) c)) \<and>
   (\<exists>st' t'. copy_assign int_type 1 0 two_vectors_state = Done st' \<and>
      vecs st' 1 = Some t' \<and> elements (heap st') t' = Some [1, 2] \<and>
      vecs st' 0 = vecs two_vectors_state 0 \<and>
      t' = \<lparr>data_m = \<lparr>buffer_m = Addr 3 0, capacity_m = 2\<rparr>, size_m = 2\<rparr> \<and>
      blocks (heap st') = [None, Some [Some 1, Some 2], None, Some [Some 1, Some 2]] \<and>
      avail (heap st') = 96)"
proof -
  have ne: "(1::nat) \<noteq> 0"
    by simp
  have sep: "separate \<lparr>data_m = \<lparr>buffer_m = Addr 2 0, capacity_m = 1\<rparr>, size_m = 1\<rparr>
      \<lparr>data_m = \<lparr>buffer_m = Addr 1 0, capacity_m = 2\<rparr>, size_m = 2\<rparr>"
    by (simp add: separate_def)
  have big: "Capacity \<lparr>data_m = \<lparr>buffer_m = Addr 2 0, capacity_m = 1\<rparr>, size_m = 1\<rparr>
      < Size \<lparr>data_m = \<lparr>buffer_m = Addr 1 0, capacity_m = 2\<rparr>, size_m = 2\<rparr>"
    by (simp add: Capacity_def Size_def)
  note inst = copy_assign_strong_guarantee [OF ne two_vectors_holds(2) two_vectors_holds(1)
      two_vectors_holds(4) two_vectors_holds(3) sep big]
  have 1: "length [1, 2 :: int] \<le> avail (heap two_vectors_state) \<and>
      \<not> list_all (\<lambda>y. \<not> copy_throws picky_type y) [1, 2]"
    by (simp add: two_vectors_state_def picky_type_def int_type_def)
  have 2: "length [1, 2 :: int] \<le> avail (heap two_vectors_state) \<and>
      list_all (\<lambda>y. \<not> copy_throws int_type y) [1, 2]"
    by (simp add: two_vectors_state_def int_type_def)
  have 3: "blocks (heap two_vectors_state) = [None, Some [Some 1, Some 2], Some [Some 7]]"
    "avail (heap two_vectors_state) = 97"
    by (simp_all add: two_vectors_state_def)
  show ?thesis
    using inst [of picky_type] inst [of int_type] 1 2 two_vectors_holds(1)
    by (auto simp: 3 Capacity_def eval_nat_numeral)
qed

text \<open>
  C5. Copy assignment from \<open>rhs\<close> holding \<open>ys\<close>, with no more elements than the
  destination has capacity, returns when no copy throws; it allocates nothing (the number
  of blocks and the free slots of the allocator are as before) and the destination keeps
  its block and capacity; afterwards its size is that of \<open>rhs\<close>, its elements are
  \<open>ys\<close> and every slot from the size on is raw (the surplus elements were destroyed,
  the missing ones constructed); \<open>rhs\<close> is unchanged.
\<close>

theorem copy_assign_no_reallocation:
  assumes "this \<noteq> rhs" and "vecs st this = Some t" and "vecs st rhs = Some r"
    and "holds (heap st) t xs" and "holds (heap st) r ys" and "separate t r"
    and "Size r \<le> Capacity t" and "list_all (\<lambda>y. \<not> copy_throws T y) ys"
  shows "\<exists>st' t'. copy_assign T this rhs st = Done st' \<and> vecs st' this = Some t' \<and>
           Size t' = Size r \<and> elements (heap st') t' = Some ys \<and> holds (heap st') t' ys \<and>
           Capacity t' = Capacity t \<and> data_m t' = data_m t \<and>
           length (blocks (heap st')) = length (blocks (heap st)) \<and>
           avail (heap st') = avail (heap st) \<and>
           vecs st' rhs = Some r \<and> holds (heap st') r ys"
proof -
  let ?t = "t\<lparr>size_m := size_m r\<rparr>"
  obtain h' where
    c: "copy_assign T this rhs st = Done (st\<lparr>heap := h', vecs := (vecs st)(this \<mapsto> ?t)\<rparr>)"
    and h: "holds h' ?t ys" "holds h' r ys"
    and same: "length (blocks h') = length (blocks (heap st))" "avail h' = avail (heap st)"
    using copy_assign_in_place [OF assms] by blast
  show ?thesis
    using c h same assms(1,3) holds_elements [OF h(1)]
    by (intro exI [of _ "st\<lparr>heap := h', vecs := (vecs st)(this \<mapsto> ?t)\<rparr>"] exI [of _ ?t])
      (simp add: Size_def Capacity_def)
qed

theorem copy_assign_no_reallocation_witness:
  "\<exists>st' t'. copy_assign int_type 0 1 two_vectors_state = Done st' \<and> vecs st' 0 = Some t' \<and>
     Size t' = 1 \<and> Capacity t' = 2 \<and> elements (heap st') t' = Some [7] \<and>
     length (blocks (heap st')) = length (blocks (heap two_vectors_state))"
proof -
  have ne: "(0::nat) \<noteq> 1"
    by simp
  have sep: "separate \<lparr>data_m = \<lparr>buffer_m = Addr 1 0, capacity_m = 2\<rparr>, size_m = 2\<rparr>
      \<lparr>data_m = \<lparr>buffer_m = Addr 2 0, capacity_m = 1\<rparr>, size_m = 1\<rparr>"
    by (simp add: separate_def)
  have fits: "Size \<lparr>data_m = \<lparr>buffer_m = Addr 2 0, capacity_m = 1\<rparr>, size_m = 1\<rparr>
      \<le> Capacity \<lparr>data_m = \<lparr>buffer_m = Addr 1 0, capacity_m = 2\<rparr>, size_m = 2\<rparr>"
    by (simp add: Capacity_def Size_def)
  have ok: "list_all (\<lambda>y. \<not> copy_throws int_type y) [7]"
    by (simp add: int_type_def)
  show ?thesis
    using copy_assign_no_reallocation [OF ne two_vectors_holds(1) two_vectors_holds(2)
      two_vectors_holds(3) two_vectors_holds(4) sep fits ok]
    by (auto simp: Size_def Capacity_def)
qed



end
